theory Spec2Isabelle
  imports Complex_Main "HOL-Library.Monad_Syntax" "HOL-Library.Sublist"
begin

section \<open>Flash-loan sandwich detector: the data model\<close>

text \<open>
  The amounts, price impacts and thresholds of \<^verbatim>\<open>flash_sandwich_trap.py\<close> are Python
  numbers (floats by annotation, ints in the demo data and in the default threshold
  \<^verbatim>\<open>100000\<close>). The detector only ever compares them with \<^verbatim>\<open>>=\<close> and copies them, so a
  number is modelled by its value: a real, one of the two infinities, or NaN. Python
  compares ints and floats by exact value; every comparison with NaN is false.
\<close>

datatype pynum = Fin real | PInf | NInf | NaN

fun py_ge :: "pynum \<Rightarrow> pynum \<Rightarrow> bool" where
  "py_ge NaN _ = False"
| "py_ge _ NaN = False"
| "py_ge PInf _ = True"
| "py_ge _ NInf = True"
| "py_ge (Fin a) (Fin b) = (a \<ge> b)"
| "py_ge (Fin _) PInf = False"
| "py_ge NInf _ = False"

text \<open>The dataclasses \<^verbatim>\<open>FlashLoan\<close>, \<^verbatim>\<open>Swap\<close> and \<^verbatim>\<open>CollectedData\<close>.\<close>

record FlashLoan =
  borrower :: string
  token :: string
  amount :: pynum
  tx_hash :: string

record Swap =
  trader :: string
  token_in :: string
  token_out :: string
  amount_in :: pynum
  amount_out :: pynum
  price_impact :: pynum
  tx_hash :: string

record CollectedData =
  flash_loans :: "FlashLoan list"
  swaps :: "Swap list"
  block_number :: int
  timestamp :: int

text \<open>
  The configuration dictionary handed to \<^verbatim>\<open>FlashSandwichTrap.__init__\<close>: only the three
  keys the constructor reads matter, and a key that is absent is \<open>None\<close>.
\<close>

record config =
  cfg_min_price_impact :: "pynum option"
  cfg_min_flash_loan_size :: "pynum option"
  cfg_max_blocks_between :: "int option"

record FlashSandwichTrap =
  min_price_impact :: pynum
  min_flash_loan_size :: pynum
  max_blocks_between :: int

text \<open>\<^verbatim>\<open>__init__\<close>: \<^verbatim>\<open>config.get(key, default)\<close> for each of the three keys.\<close>

definition init :: "config \<Rightarrow> FlashSandwichTrap" where
  "init cfg =
     \<lparr>min_price_impact = (case cfg_min_price_impact cfg of None \<Rightarrow> Fin 5.0 | Some v \<Rightarrow> v),
      min_flash_loan_size = (case cfg_min_flash_loan_size cfg of None \<Rightarrow> Fin 100000 | Some v \<Rightarrow> v),
      max_blocks_between = (case cfg_max_blocks_between cfg of None \<Rightarrow> 1 | Some v \<Rightarrow> v)\<rparr>"

definition default_config :: config where
  "default_config =
     \<lparr>cfg_min_price_impact = None, cfg_min_flash_loan_size = None, cfg_max_blocks_between = None\<rparr>"

section \<open>\<^verbatim>\<open>FlashSandwichTrap.should_respond\<close>\<close>

text \<open>
  \<^verbatim>\<open>xs[-2:]\<close>: the slice starts at \<open>max (len - 2) 0\<close>, which is what the truncating
  subtraction of \<open>nat\<close> computes, and never fails.
\<close>

definition last_two :: "'a list \<Rightarrow> 'a list" where
  "last_two xs = drop (length xs - 2) xs"

text \<open>
  Line 96: \<^verbatim>\<open>historical_data[-2:] if len(historical_data) >= 2 else historical_data\<close>.
\<close>

definition recent_blocks_of :: "'a list \<Rightarrow> 'a list" where
  "recent_blocks_of historical_data =
     (if length historical_data \<ge> 2 then last_two historical_data else historical_data)"

text \<open>
  Step 1, the inner and the outer loop; the last argument is the list \<^verbatim>\<open>flash_loans\<close>
  being appended to.
\<close>

fun find_loans_in_block :: "FlashSandwichTrap \<Rightarrow> FlashLoan list \<Rightarrow> FlashLoan list \<Rightarrow> FlashLoan list" where
  "find_loans_in_block self [] acc = acc"
| "find_loans_in_block self (loan # rest) acc =
     (if py_ge (FlashLoan.amount loan) (min_flash_loan_size self)
      then find_loans_in_block self rest (acc @ [loan])
      else find_loans_in_block self rest acc)"

fun find_flash_loans :: "FlashSandwichTrap \<Rightarrow> CollectedData list \<Rightarrow> FlashLoan list \<Rightarrow> FlashLoan list" where
  "find_flash_loans self [] acc = acc"
| "find_flash_loans self (block # rest) acc =
     find_flash_loans self rest (find_loans_in_block self (CollectedData.flash_loans block) acc)"

text \<open>Step 2, the same two loops over the swaps.\<close>

fun find_swaps_in_block :: "FlashSandwichTrap \<Rightarrow> Swap list \<Rightarrow> Swap list \<Rightarrow> Swap list" where
  "find_swaps_in_block self [] acc = acc"
| "find_swaps_in_block self (swap # rest) acc =
     (if py_ge (Swap.price_impact swap) (min_price_impact self)
      then find_swaps_in_block self rest (acc @ [swap])
      else find_swaps_in_block self rest acc)"

fun find_high_impact_swaps :: "FlashSandwichTrap \<Rightarrow> CollectedData list \<Rightarrow> Swap list \<Rightarrow> Swap list" where
  "find_high_impact_swaps self [] acc = acc"
| "find_high_impact_swaps self (block # rest) acc =
     find_high_impact_swaps self rest (find_swaps_in_block self (swaps block) acc)"

text \<open>
  Step 3, the nested loops with their two \<^verbatim>\<open>return True\<close>; falling out of a loop is
  \<open>False\<close>.
\<close>

fun related_swap :: "FlashLoan \<Rightarrow> Swap list \<Rightarrow> bool" where
  "related_swap loan [] = False"
| "related_swap loan (swap # rest) =
     (if FlashLoan.tx_hash loan = Swap.tx_hash swap then True
      else if FlashLoan.borrower loan = Swap.trader swap then True
      else related_swap loan rest)"

fun related :: "FlashLoan list \<Rightarrow> Swap list \<Rightarrow> bool" where
  "related [] high_swaps = False"
| "related (loan # rest) high_swaps =
     (if related_swap loan high_swaps then True else related rest high_swaps)"

definition should_respond :: "FlashSandwichTrap \<Rightarrow> CollectedData list \<Rightarrow> bool" where
  "should_respond self historical_data =
     (if length historical_data < 1 then False
      else
        let recent_blocks = recent_blocks_of historical_data;
            flash_loans = find_flash_loans self recent_blocks []
        in if flash_loans = [] then False
           else
             let high_impact_swaps = find_high_impact_swaps self recent_blocks []
             in if high_impact_swaps = [] then False
                else related flash_loans high_impact_swaps)"

section \<open>\<^verbatim>\<open>FlashSandwichTrap.get_alert_details\<close>\<close>

text \<open>
  The dictionaries of the alert. The entries of \<^verbatim>\<open>'flash_loans'\<close> have the keys
  \<^verbatim>\<open>borrower\<close>, \<^verbatim>\<open>amount\<close>, \<^verbatim>\<open>tx\<close>; those of \<^verbatim>\<open>'high_impact_swaps'\<close> the keys
  \<^verbatim>\<open>trader\<close>, \<^verbatim>\<open>price_impact\<close>, \<^verbatim>\<open>tx\<close>.
\<close>

record loan_dict =
  borrower :: string
  amount :: pynum
  tx :: string

record swap_dict =
  trader :: string
  price_impact :: pynum
  tx :: string

record Alert =
  attack_type :: string
  severity :: string
  flash_loans :: "loan_dict list"
  high_impact_swaps :: "swap_dict list"
  blocks_analyzed :: int

text \<open>
  The loop over \<^verbatim>\<open>recent_blocks\<close>: each round extends the two lists with the entries of
  the block's qualifying loans and swaps (the two list comprehensions).
\<close>

definition loan_entry :: "FlashLoan \<Rightarrow> loan_dict" where
  "loan_entry loan =
     \<lparr>borrower = FlashLoan.borrower loan, amount = FlashLoan.amount loan,
      tx = FlashLoan.tx_hash loan\<rparr>"

definition swap_entry :: "Swap \<Rightarrow> swap_dict" where
  "swap_entry swap =
     \<lparr>trader = Swap.trader swap, price_impact = Swap.price_impact swap,
      tx = Swap.tx_hash swap\<rparr>"

fun alert_loop ::
  "FlashSandwichTrap \<Rightarrow> CollectedData list \<Rightarrow> loan_dict list \<Rightarrow> swap_dict list
     \<Rightarrow> loan_dict list \<times> swap_dict list" where
  "alert_loop self [] loans_acc swaps_acc = (loans_acc, swaps_acc)"
| "alert_loop self (block # rest) loans_acc swaps_acc =
     alert_loop self rest
       (loans_acc @
          map loan_entry
            (filter (\<lambda>loan. py_ge (FlashLoan.amount loan) (min_flash_loan_size self))
               (CollectedData.flash_loans block)))
       (swaps_acc @
          map swap_entry
            (filter (\<lambda>swap. py_ge (Swap.price_impact swap) (min_price_impact self))
               (CollectedData.swaps block)))"

definition get_alert_details :: "FlashSandwichTrap \<Rightarrow> CollectedData list \<Rightarrow> Alert" where
  "get_alert_details self historical_data =
     (let recent_blocks = last_two historical_data
      in case alert_loop self recent_blocks [] [] of
           (loan_entries, swap_entries) \<Rightarrow>
             \<lparr>attack_type = ''flash_loan_sandwich'',
              severity = ''HIGH'',
              flash_loans = loan_entries,
              high_impact_swaps = swap_entries,
              blocks_analyzed = int (length historical_data)\<rparr>)"

section \<open>\<^verbatim>\<open>SimpleFlashSandwichTrap\<close>\<close>

record SimpleFlashSandwichTrap =
  price_impact_threshold :: pynum
  flash_loan_threshold :: pynum

definition simple_init :: SimpleFlashSandwichTrap where
  "simple_init = \<lparr>price_impact_threshold = Fin 5.0, flash_loan_threshold = Fin 100000\<rparr>"

text \<open>
  The dictionary of one block, as \<^verbatim>\<open>SimpleFlashSandwichTrap.collect\<close> lays it out: the
  block number, the loan amounts and the price changes.
\<close>

record simple_block =
  block :: int
  flash_loans :: "pynum list"
  price_impacts :: "pynum list"

definition simple_should_respond :: "SimpleFlashSandwichTrap \<Rightarrow> simple_block list \<Rightarrow> bool" where
  "simple_should_respond self last_blocks =
     (if length last_blocks < 1 then False
      else
        let recent = recent_blocks_of last_blocks;
            has_large_loan =
              list_ex (\<lambda>block. list_ex (\<lambda>loan. py_ge loan (flash_loan_threshold self))
                                  (simple_block.flash_loans block)) recent;
            has_price_impact =
              list_ex (\<lambda>block. list_ex (\<lambda>impact. py_ge impact (price_impact_threshold self))
                                  (price_impacts block)) recent
        in has_large_loan \<and> has_price_impact)"

text \<open>
  The loan-amount/price-impact representation of a structured block: the amounts of its
  loans and the price impacts of its swaps, in order.
\<close>

definition simple_view :: "CollectedData \<Rightarrow> simple_block" where
  "simple_view b =
     \<lparr>block = block_number b,
      flash_loans = map FlashLoan.amount (CollectedData.flash_loans b),
      price_impacts = map Swap.price_impact (CollectedData.swaps b)\<rparr>"

section \<open>The specification's look-back, for comparison\<close>

text \<open>
  \<^verbatim>\<open>window.recent(n)\<close> in the specification's words: the last \<open>min n len\<close> bundles, in
  ascending order; and the look-back of a detection pass, \<open>max_blocks_between + 1\<close>.
\<close>

definition spec_recent :: "nat \<Rightarrow> 'a list \<Rightarrow> 'a list" where
  "spec_recent n window = drop (length window - min n (length window)) window"

definition spec_look_back :: "FlashSandwichTrap \<Rightarrow> nat" where
  "spec_look_back self = nat (max_blocks_between self + 1)"

text \<open>The detector's algorithm as the specification words it, steps 1 to 7.\<close>

definition spec_should_respond :: "FlashSandwichTrap \<Rightarrow> CollectedData list \<Rightarrow> bool" where
  "spec_should_respond self window =
     (let recent = spec_recent (spec_look_back self) window;
          qualifying_loans =
            filter (\<lambda>l. py_ge (FlashLoan.amount l) (min_flash_loan_size self))
              (concat (map CollectedData.flash_loans recent))
      in if qualifying_loans = [] then False
         else
           let qualifying_swaps =
                 filter (\<lambda>s. py_ge (Swap.price_impact s) (min_price_impact self))
                   (concat (map CollectedData.swaps recent))
           in if qualifying_swaps = [] then False
              else list_ex (\<lambda>l. list_ex (\<lambda>s. FlashLoan.tx_hash l = Swap.tx_hash s
                                             \<or> FlashLoan.borrower l = Swap.trader s)
                                   qualifying_swaps) qualifying_loans)"

section \<open>The objects of a run, on a heap\<close>

text \<open>
  Python lists and dataclass instances are mutable objects reached through references, and
  \<^verbatim>\<open>should_respond\<close> stores references to the window's own loans and swaps in its local
  lists. To speak about what a call changes, the second model keeps every object in a
  heap: a list of cells, an address being an index, allocation appending a cell. Strings
  and numbers are immutable and stay values inside their cell.
\<close>

type_synonym addr = nat

text \<open>
  A list holds references; a \<^verbatim>\<open>CollectedData\<close> instance holds the references of its two
  lists, its block number and its timestamp; the alert dictionary holds the references of
  its two lists of entry dictionaries.
\<close>

datatype obj =
    PyList "addr list"
  | LoanObj FlashLoan
  | SwapObj Swap
  | BlockObj addr addr int int
  | LoanDict loan_dict
  | SwapDict swap_dict
  | AlertDict string string addr addr int

type_synonym heap = "obj list"

text \<open>
  A step of a run returns \<open>None\<close> where Python would raise (an attribute or an item of
  an object of the wrong kind, a dangling address).
\<close>

definition alloc :: "obj \<Rightarrow> heap \<Rightarrow> (addr \<times> heap) option" where
  "alloc ob h = Some (length h, h @ [ob])"

definition get_obj :: "heap \<Rightarrow> addr \<Rightarrow> obj option" where
  "get_obj h a = (if a < length h then Some (h ! a) else None)"

definition get_list :: "heap \<Rightarrow> addr \<Rightarrow> addr list option" where
  "get_list h a = (case get_obj h a of Some (PyList xs) \<Rightarrow> Some xs | _ \<Rightarrow> None)"

definition get_loan :: "heap \<Rightarrow> addr \<Rightarrow> FlashLoan option" where
  "get_loan h a = (case get_obj h a of Some (LoanObj l) \<Rightarrow> Some l | _ \<Rightarrow> None)"

definition get_swap :: "heap \<Rightarrow> addr \<Rightarrow> Swap option" where
  "get_swap h a = (case get_obj h a of Some (SwapObj s) \<Rightarrow> Some s | _ \<Rightarrow> None)"

definition block_flash_loans :: "heap \<Rightarrow> addr \<Rightarrow> addr option" where
  "block_flash_loans h a = (case get_obj h a of Some (BlockObj fl sw n t) \<Rightarrow> Some fl | _ \<Rightarrow> None)"

definition block_swaps :: "heap \<Rightarrow> addr \<Rightarrow> addr option" where
  "block_swaps h a = (case get_obj h a of Some (BlockObj fl sw n t) \<Rightarrow> Some sw | _ \<Rightarrow> None)"

text \<open>\<^verbatim>\<open>lst.append(x)\<close> and \<^verbatim>\<open>lst.extend(src)\<close> rewrite the cell of \<^verbatim>\<open>lst\<close> in place.\<close>

definition list_append :: "addr \<Rightarrow> addr \<Rightarrow> heap \<Rightarrow> heap option" where
  "list_append lst x h =
     (case get_list h lst of Some xs \<Rightarrow> Some (h[lst := PyList (xs @ [x])]) | None \<Rightarrow> None)"

definition list_extend :: "addr \<Rightarrow> addr \<Rightarrow> heap \<Rightarrow> heap option" where
  "list_extend lst src h =
     (case get_list h lst of
        Some xs \<Rightarrow> (case get_list h src of
                      Some ys \<Rightarrow> Some (h[lst := PyList (xs @ ys)])
                    | None \<Rightarrow> None)
      | None \<Rightarrow> None)"

text \<open>
  \<^verbatim>\<open>for x in lst: body\<close>. Python's list iterator keeps an index and reads the list anew in
  every round, so a body that appends to the list it iterates never ends; not returning
  is \<open>None\<close>. The body yields \<open>Some v\<close> when it executed \<^verbatim>\<open>return v\<close>, which ends the
  loop and the function.
\<close>

partial_function (option) for_in ::
  "addr \<Rightarrow> nat \<Rightarrow> (addr \<Rightarrow> heap \<Rightarrow> ('r option \<times> heap) option) \<Rightarrow> heap
     \<Rightarrow> ('r option \<times> heap) option" where
  "for_in lst i body h =
     do {
       xs \<leftarrow> get_list h lst;
       if i < length xs
       then do {
         (r, h') \<leftarrow> body (xs ! i) h;
         case r of
           Some v \<Rightarrow> Some (Some v, h')
         | None \<Rightarrow> for_in lst (i + 1) body h'
       }
       else Some (None, h)
     }"

declare for_in.simps [code]

text \<open>The bodies of the loops of \<^verbatim>\<open>should_respond\<close>, inner loops first.\<close>

definition append_if_large :: "FlashSandwichTrap \<Rightarrow> addr \<Rightarrow> addr \<Rightarrow> heap \<Rightarrow> (bool option \<times> heap) option" where
  "append_if_large self acc loan h =
     do {
       l \<leftarrow> get_loan h loan;
       if py_ge (FlashLoan.amount l) (min_flash_loan_size self)
       then do { h' \<leftarrow> list_append acc loan h; Some (None, h') }
       else Some (None, h)
     }"

definition append_if_high_impact :: "FlashSandwichTrap \<Rightarrow> addr \<Rightarrow> addr \<Rightarrow> heap \<Rightarrow> (bool option \<times> heap) option" where
  "append_if_high_impact self acc swap h =
     do {
       s \<leftarrow> get_swap h swap;
       if py_ge (Swap.price_impact s) (min_price_impact self)
       then do { h' \<leftarrow> list_append acc swap h; Some (None, h') }
       else Some (None, h)
     }"

definition check_pair :: "addr \<Rightarrow> addr \<Rightarrow> heap \<Rightarrow> (bool option \<times> heap) option" where
  "check_pair loan swap h =
     do {
       l \<leftarrow> get_loan h loan;
       s \<leftarrow> get_swap h swap;
       if FlashLoan.tx_hash l = Swap.tx_hash s then Some (Some True, h)
       else if FlashLoan.borrower l = Swap.trader s then Some (Some True, h)
       else Some (None, h)
     }"

definition loans_of_block :: "FlashSandwichTrap \<Rightarrow> addr \<Rightarrow> addr \<Rightarrow> heap \<Rightarrow> (bool option \<times> heap) option" where
  "loans_of_block self acc blk h =
     do { fl \<leftarrow> block_flash_loans h blk; for_in fl 0 (append_if_large self acc) h }"

definition swaps_of_block :: "FlashSandwichTrap \<Rightarrow> addr \<Rightarrow> addr \<Rightarrow> heap \<Rightarrow> (bool option \<times> heap) option" where
  "swaps_of_block self acc blk h =
     do { sw \<leftarrow> block_swaps h blk; for_in sw 0 (append_if_high_impact self acc) h }"

definition check_loan :: "addr \<Rightarrow> addr \<Rightarrow> heap \<Rightarrow> (bool option \<times> heap) option" where
  "check_loan high loan h = for_in high 0 (check_pair loan) h"

text \<open>
  \<^verbatim>\<open>should_respond\<close> on the heap. With fewer than two blocks \<^verbatim>\<open>recent_blocks\<close> is the
  window's own list, otherwise the slice is a new list.
\<close>

definition should_respond_h :: "FlashSandwichTrap \<Rightarrow> addr \<Rightarrow> heap \<Rightarrow> (bool \<times> heap) option" where
  "should_respond_h self historical_data h =
     do {
       hd \<leftarrow> get_list h historical_data;
       if length hd < 1 then Some (False, h)
       else do {
         (recent_blocks, h1) \<leftarrow>
           (if length hd \<ge> 2 then alloc (PyList (last_two hd)) h else Some (historical_data, h));
         (flash_loans, h2) \<leftarrow> alloc (PyList []) h1;
         (_, h3) \<leftarrow> for_in recent_blocks 0 (loans_of_block self flash_loans) h2;
         found \<leftarrow> get_list h3 flash_loans;
         if found = [] then Some (False, h3)
         else do {
           (high_impact_swaps, h4) \<leftarrow> alloc (PyList []) h3;
           (_, h5) \<leftarrow> for_in recent_blocks 0 (swaps_of_block self high_impact_swaps) h4;
           high \<leftarrow> get_list h5 high_impact_swaps;
           if high = [] then Some (False, h5)
           else do {
             (r, h6) \<leftarrow> for_in flash_loans 0 (check_loan high_impact_swaps) h5;
             case r of Some v \<Rightarrow> Some (v, h6) | None \<Rightarrow> Some (False, h6)
           }
         }
       }
     }"

text \<open>
  \<^verbatim>\<open>get_alert_details\<close> on the heap: each list comprehension builds a new list of new
  dictionaries, which \<^verbatim>\<open>extend\<close> copies into the list of the alert.
\<close>

definition add_loan_entry :: "FlashSandwichTrap \<Rightarrow> addr \<Rightarrow> addr \<Rightarrow> heap \<Rightarrow> (addr option \<times> heap) option" where
  "add_loan_entry self tmp loan h =
     do {
       l \<leftarrow> get_loan h loan;
       if py_ge (FlashLoan.amount l) (min_flash_loan_size self)
       then do {
         (d, h1) \<leftarrow> alloc (LoanDict (loan_entry l)) h;
         h2 \<leftarrow> list_append tmp d h1;
         Some (None, h2)
       }
       else Some (None, h)
     }"

definition add_swap_entry :: "FlashSandwichTrap \<Rightarrow> addr \<Rightarrow> addr \<Rightarrow> heap \<Rightarrow> (addr option \<times> heap) option" where
  "add_swap_entry self tmp swap h =
     do {
       s \<leftarrow> get_swap h swap;
       if py_ge (Swap.price_impact s) (min_price_impact self)
       then do {
         (d, h1) \<leftarrow> alloc (SwapDict (swap_entry s)) h;
         h2 \<leftarrow> list_append tmp d h1;
         Some (None, h2)
       }
       else Some (None, h)
     }"

definition alert_block :: "FlashSandwichTrap \<Rightarrow> addr \<Rightarrow> addr \<Rightarrow> addr \<Rightarrow> heap \<Rightarrow> (addr option \<times> heap) option" where
  "alert_block self loans_acc swaps_acc blk h =
     do {
       fl \<leftarrow> block_flash_loans h blk;
       (tmp, h1) \<leftarrow> alloc (PyList []) h;
       (_, h2) \<leftarrow> for_in fl 0 (add_loan_entry self tmp) h1;
       h3 \<leftarrow> list_extend loans_acc tmp h2;
       sw \<leftarrow> block_swaps h3 blk;
       (tmp', h4) \<leftarrow> alloc (PyList []) h3;
       (_, h5) \<leftarrow> for_in sw 0 (add_swap_entry self tmp') h4;
       h6 \<leftarrow> list_extend swaps_acc tmp' h5;
       Some (None, h6)
     }"

definition get_alert_details_h :: "FlashSandwichTrap \<Rightarrow> addr \<Rightarrow> heap \<Rightarrow> (addr \<times> heap) option" where
  "get_alert_details_h self historical_data h =
     do {
       hd \<leftarrow> get_list h historical_data;
       (recent_blocks, h1) \<leftarrow> alloc (PyList (last_two hd)) h;
       (loans_acc, h2) \<leftarrow> alloc (PyList []) h1;
       (swaps_acc, h3) \<leftarrow> alloc (PyList []) h2;
       (_, h4) \<leftarrow> for_in recent_blocks 0 (alert_block self loans_acc swaps_acc) h3;
       hd' \<leftarrow> get_list h4 historical_data;
       alloc (AlertDict ''flash_loan_sandwich'' ''HIGH'' loans_acc swaps_acc (int (length hd'))) h4
     }"

text \<open>
  Reading a window and an alert back from the heap: the value a reference stands for, or
  \<open>None\<close> when the cells are not of the expected kinds.
\<close>

definition read_loans :: "heap \<Rightarrow> addr \<Rightarrow> FlashLoan list option" where
  "read_loans h a = do { xs \<leftarrow> get_list h a; those (map (get_loan h) xs) }"

definition read_swaps :: "heap \<Rightarrow> addr \<Rightarrow> Swap list option" where
  "read_swaps h a = do { xs \<leftarrow> get_list h a; those (map (get_swap h) xs) }"

definition read_block :: "heap \<Rightarrow> addr \<Rightarrow> CollectedData option" where
  "read_block h a =
     (case get_obj h a of
        Some (BlockObj fl sw n t) \<Rightarrow>
          do {
            ls \<leftarrow> read_loans h fl;
            ss \<leftarrow> read_swaps h sw;
            Some \<lparr>CollectedData.flash_loans = ls, swaps = ss, block_number = n, timestamp = t\<rparr>
          }
      | _ \<Rightarrow> None)"

definition read_window :: "heap \<Rightarrow> addr \<Rightarrow> CollectedData list option" where
  "read_window h a = do { xs \<leftarrow> get_list h a; those (map (read_block h) xs) }"

definition get_loan_dict :: "heap \<Rightarrow> addr \<Rightarrow> loan_dict option" where
  "get_loan_dict h a = (case get_obj h a of Some (LoanDict d) \<Rightarrow> Some d | _ \<Rightarrow> None)"

definition get_swap_dict :: "heap \<Rightarrow> addr \<Rightarrow> swap_dict option" where
  "get_swap_dict h a = (case get_obj h a of Some (SwapDict d) \<Rightarrow> Some d | _ \<Rightarrow> None)"

definition read_loan_dicts :: "heap \<Rightarrow> addr \<Rightarrow> loan_dict list option" where
  "read_loan_dicts h a = do { xs \<leftarrow> get_list h a; those (map (get_loan_dict h) xs) }"

definition read_swap_dicts :: "heap \<Rightarrow> addr \<Rightarrow> swap_dict list option" where
  "read_swap_dicts h a = do { xs \<leftarrow> get_list h a; those (map (get_swap_dict h) xs) }"

definition read_alert :: "heap \<Rightarrow> addr \<Rightarrow> Alert option" where
  "read_alert h a =
     (case get_obj h a of
        Some (AlertDict kind sev fl sw n) \<Rightarrow>
          do {
            ls \<leftarrow> read_loan_dicts h fl;
            ss \<leftarrow> read_swap_dicts h sw;
            Some \<lparr>attack_type = kind, severity = sev, Alert.flash_loans = ls,
                  high_impact_swaps = ss, blocks_analyzed = n\<rparr>
          }
      | _ \<Rightarrow> None)"

text \<open>The first \<^verbatim>\<open>return\<close> of a sequence of rounds.\<close>

fun first_some :: "'a option list \<Rightarrow> 'a option" where
  "first_some [] = None"
| "first_some (Some v # rest) = Some v"
| "first_some (None # rest) = first_some rest"

section \<open>Demo data\<close>

text \<open>The two blocks of \<^verbatim>\<open>main()\<close>: normal activity, then the attack.\<close>

definition data1 :: CollectedData where
  "data1 =
     \<lparr>CollectedData.flash_loans = [\<lparr>FlashLoan.borrower = ''0xUser1'', token = ''USDC'', FlashLoan.amount = Fin 50000,
                       FlashLoan.tx_hash = ''0xTx1''\<rparr>],
      swaps = [\<lparr>Swap.trader = ''0xUser2'', token_in = ''ETH'', token_out = ''USDC'',
                 amount_in = Fin 10, amount_out = Fin 20000, Swap.price_impact = Fin 0.5,
                 tx_hash = ''0xTx2''\<rparr>],
      block_number = 1000, timestamp = 1000\<rparr>"

definition data2 :: CollectedData where
  "data2 =
     \<lparr>CollectedData.flash_loans = [\<lparr>FlashLoan.borrower = ''0xAttacker'', token = ''USDC'', FlashLoan.amount = Fin 500000,
                       FlashLoan.tx_hash = ''0xTx3''\<rparr>],
      swaps = [\<lparr>Swap.trader = ''0xAttacker'', token_in = ''USDC'', token_out = ''ETH'',
                 amount_in = Fin 500000, amount_out = Fin 250, Swap.price_impact = Fin 8.5,
                 tx_hash = ''0xTx3''\<rparr>],
      block_number = 1001, timestamp = 1001\<rparr>"

text \<open>
  Further events: a large loan, and high-impact swaps by the same trader, in the same
  transaction, and unrelated to it.
\<close>

definition loan_a :: FlashLoan where
  "loan_a = \<lparr>FlashLoan.borrower = ''0xA'', token = ''USDC'', FlashLoan.amount = Fin 500000,
              FlashLoan.tx_hash = ''0xT1''\<rparr>"

definition swap_a :: Swap where
  "swap_a = \<lparr>Swap.trader = ''0xA'', token_in = ''USDC'', token_out = ''ETH'',
              amount_in = Fin 500000, amount_out = Fin 250, Swap.price_impact = Fin 9.0,
              tx_hash = ''0xT2''\<rparr>"

definition swap_b :: Swap where
  "swap_b = \<lparr>Swap.trader = ''0xB'', token_in = ''USDC'', token_out = ''ETH'',
              amount_in = Fin 500000, amount_out = Fin 250, Swap.price_impact = Fin 8.5,
              tx_hash = ''0xT1''\<rparr>"

definition swap_c :: Swap where
  "swap_c = \<lparr>Swap.trader = ''0xC'', token_in = ''USDC'', token_out = ''ETH'',
              amount_in = Fin 500000, amount_out = Fin 250, Swap.price_impact = Fin 8.5,
              tx_hash = ''0xT3''\<rparr>"

text \<open>A block with the given loans and swaps.\<close>

definition mk_block :: "FlashLoan list \<Rightarrow> Swap list \<Rightarrow> int \<Rightarrow> CollectedData" where
  "mk_block ls ss n = \<lparr>CollectedData.flash_loans = ls, swaps = ss, block_number = n, timestamp = 0\<rparr>"

text \<open>
  The window of \<^verbatim>\<open>main()\<close> on a heap, \<^verbatim>\<open>historical\<close> at address 10; and a heap holding
  the empty window at address 0.
\<close>

definition demo_heap :: heap where
  "demo_heap =
     [LoanObj (hd (CollectedData.flash_loans data1)), PyList [0],
      SwapObj (hd (swaps data1)), PyList [2],
      BlockObj 1 3 1000 1000,
      LoanObj (hd (CollectedData.flash_loans data2)), PyList [5],
      SwapObj (hd (swaps data2)), PyList [7],
      BlockObj 6 8 1001 1001,
      PyList [4, 9]]"

definition empty_heap :: heap where
  "empty_heap = [PyList []]"

section \<open>Properties of the detector\<close>

lemma find_loans_in_block_eq:
  "find_loans_in_block self ls acc =
     acc @ filter (\<lambda>l. py_ge (FlashLoan.amount l) (min_flash_loan_size self)) ls"
  by (induction ls arbitrary: acc) simp_all

lemma find_flash_loans_eq:
  "find_flash_loans self bs acc =
     acc @ concat (map (\<lambda>b. filter (\<lambda>l. py_ge (FlashLoan.amount l) (min_flash_loan_size self))
                               (CollectedData.flash_loans b)) bs)"
  by (induction bs arbitrary: acc) (simp_all add: find_loans_in_block_eq)

lemma find_swaps_in_block_eq:
  "find_swaps_in_block self ss acc =
     acc @ filter (\<lambda>s. py_ge (Swap.price_impact s) (min_price_impact self)) ss"
  by (induction ss arbitrary: acc) simp_all

lemma find_high_impact_swaps_eq:
  "find_high_impact_swaps self bs acc =
     acc @ concat (map (\<lambda>b. filter (\<lambda>s. py_ge (Swap.price_impact s) (min_price_impact self))
                               (swaps b)) bs)"
  by (induction bs arbitrary: acc) (simp_all add: find_swaps_in_block_eq)

lemma related_swap_iff:
  "related_swap loan ss \<longleftrightarrow>
     (\<exists>s \<in> set ss. FlashLoan.tx_hash loan = Swap.tx_hash s \<or> FlashLoan.borrower loan = Swap.trader s)"
  by (induction ss) auto

lemma related_iff:
  "related ls ss \<longleftrightarrow>
     (\<exists>l \<in> set ls. \<exists>s \<in> set ss.
        FlashLoan.tx_hash l = Swap.tx_hash s \<or> FlashLoan.borrower l = Swap.trader s)"
  by (induction ls) (auto simp: related_swap_iff)

lemma py_ge_trans: "py_ge a b \<Longrightarrow> py_ge b c \<Longrightarrow> py_ge a c"
  by (cases a; cases b; cases c) simp_all

lemma last_two_short: "length xs \<le> 2 \<Longrightarrow> last_two xs = xs"
  by (simp add: last_two_def)

lemma recent_blocks_of_last_two: "recent_blocks_of xs = last_two xs"
  by (simp add: recent_blocks_of_def last_two_def)

lemma last_two_spec_recent: "last_two xs = spec_recent 2 xs"
  by (simp add: last_two_def spec_recent_def min_def)

lemma last_two_idem: "last_two (last_two xs) = last_two xs"
  by (simp add: last_two_def)

lemma should_respond_iff:
  "should_respond self w \<longleftrightarrow>
     (\<exists>b1 \<in> set (recent_blocks_of w). \<exists>l \<in> set (CollectedData.flash_loans b1).
        py_ge (FlashLoan.amount l) (min_flash_loan_size self) \<and>
        (\<exists>b2 \<in> set (recent_blocks_of w). \<exists>s \<in> set (swaps b2).
           py_ge (Swap.price_impact s) (min_price_impact self) \<and>
           (FlashLoan.tx_hash l = Swap.tx_hash s \<or> FlashLoan.borrower l = Swap.trader s)))"
proof (cases "w = []")
  case True
  then show ?thesis by (simp add: should_respond_def recent_blocks_of_def)
next
  case False
  then have len: "\<not> length w < 1" by (cases w) simp_all
  let ?ls = "find_flash_loans self (recent_blocks_of w) []"
  let ?ss = "find_high_impact_swaps self (recent_blocks_of w) []"
  have sr: "should_respond self w \<longleftrightarrow> related ?ls ?ss"
    using len by (auto simp: should_respond_def Let_def related_iff)
  show ?thesis
    unfolding sr related_iff find_flash_loans_eq find_high_impact_swaps_eq
    by auto
qed

lemma alert_loop_eq:
  "alert_loop self bs la sa =
     (la @ map loan_entry (filter (\<lambda>l. py_ge (FlashLoan.amount l) (min_flash_loan_size self))
                              (concat (map CollectedData.flash_loans bs))),
      sa @ map swap_entry (filter (\<lambda>s. py_ge (Swap.price_impact s) (min_price_impact self))
                              (concat (map swaps bs))))"
  by (induction bs arbitrary: la sa) simp_all

lemma should_respond_pair:
  assumes "b1 \<in> set (recent_blocks_of w)" and "loan \<in> set (CollectedData.flash_loans b1)"
    and "py_ge (FlashLoan.amount loan) (min_flash_loan_size self)"
    and "b2 \<in> set (recent_blocks_of w)" and "swap \<in> set (swaps b2)"
    and "py_ge (Swap.price_impact swap) (min_price_impact self)"
    and "FlashLoan.tx_hash loan = Swap.tx_hash swap \<or> FlashLoan.borrower loan = Swap.trader swap"
  shows "should_respond self w"
  unfolding should_respond_iff using assms by blast

lemma filter_single_out:
  "\<forall>x \<in> set (xs @ ys). \<not> P x \<Longrightarrow> P y \<Longrightarrow> filter P (xs @ [y] @ ys) = [y]"
  by (simp add: filter_empty_conv)

section \<open>Properties of the heap model\<close>

lemma those_map_eq_Some: "those (map f xs) = Some ys \<longleftrightarrow> map f xs = map Some ys"
proof (induction xs arbitrary: ys)
  case Nil
  then show ?case by auto
next
  case (Cons x xs)
  then show ?case by (cases ys) (auto split: option.splits)
qed

lemma map_Some_stable:
  assumes "map (g h) xs = map Some ys" and "\<And>x v. g h x = Some v \<Longrightarrow> g h' x = Some v"
  shows "map (g h') xs = map Some ys"
  using assms(1)
proof (induction xs arbitrary: ys)
  case Nil
  then show ?case by simp
next
  case (Cons x xs)
  then show ?case by (cases ys) (auto simp: assms(2))
qed

lemma map_Some_nth:
  "map g xs = map Some ys \<Longrightarrow> j < length xs \<Longrightarrow> g (xs ! j) = Some (ys ! j)"
  by (metis length_map nth_map)

lemma map_Some_length: "map g xs = map Some ys \<Longrightarrow> length ys = length xs"
  by (metis length_map)

subsection \<open>Cells\<close>

lemma get_obj_append [simp]:
  "get_obj (h @ [ob]) a = (if a = length h then Some ob else get_obj h a)"
  by (auto simp: get_obj_def nth_append)

lemma get_obj_update:
  "get_obj (h[a := ob]) b = (if b = a \<and> a < length h then Some ob else get_obj h b)"
  by (auto simp: get_obj_def)

lemma get_obj_prefix: "prefix h h' \<Longrightarrow> get_obj h a = Some ob \<Longrightarrow> get_obj h' a = Some ob"
  by (auto simp: prefix_def get_obj_def nth_append split: if_splits)

lemma get_obj_bound: "get_obj h a = Some ob \<Longrightarrow> a < length h"
  by (auto simp: get_obj_def split: if_splits)

lemma get_list_obj: "get_list h a = Some xs \<longleftrightarrow> get_obj h a = Some (PyList xs)"
  by (auto simp: get_list_def split: option.splits obj.splits)

lemma get_loan_obj: "get_loan h a = Some l \<longleftrightarrow> get_obj h a = Some (LoanObj l)"
  by (auto simp: get_loan_def split: option.splits obj.splits)

lemma get_swap_obj: "get_swap h a = Some s \<longleftrightarrow> get_obj h a = Some (SwapObj s)"
  by (auto simp: get_swap_def split: option.splits obj.splits)

lemma get_loan_dict_obj: "get_loan_dict h a = Some d \<longleftrightarrow> get_obj h a = Some (LoanDict d)"
  by (auto simp: get_loan_dict_def split: option.splits obj.splits)

lemma get_swap_dict_obj: "get_swap_dict h a = Some d \<longleftrightarrow> get_obj h a = Some (SwapDict d)"
  by (auto simp: get_swap_dict_def split: option.splits obj.splits)

lemma block_flash_loans_obj:
  "block_flash_loans h a = Some fl \<longleftrightarrow> (\<exists>sw n t. get_obj h a = Some (BlockObj fl sw n t))"
  by (auto simp: block_flash_loans_def split: option.splits obj.splits)

lemma block_swaps_obj:
  "block_swaps h a = Some sw \<longleftrightarrow> (\<exists>fl n t. get_obj h a = Some (BlockObj fl sw n t))"
  by (auto simp: block_swaps_def split: option.splits obj.splits)

lemmas getter_obj = get_list_obj get_loan_obj get_swap_obj get_loan_dict_obj get_swap_dict_obj
  block_flash_loans_obj block_swaps_obj

lemma get_list_prefix: "prefix h h' \<Longrightarrow> get_list h a = Some xs \<Longrightarrow> get_list h' a = Some xs"
  unfolding get_list_obj by (rule get_obj_prefix)

lemma get_loan_prefix: "prefix h h' \<Longrightarrow> get_loan h a = Some l \<Longrightarrow> get_loan h' a = Some l"
  unfolding get_loan_obj by (rule get_obj_prefix)

lemma get_swap_prefix: "prefix h h' \<Longrightarrow> get_swap h a = Some s \<Longrightarrow> get_swap h' a = Some s"
  unfolding get_swap_obj by (rule get_obj_prefix)

lemma get_loan_dict_prefix:
  "prefix h h' \<Longrightarrow> get_loan_dict h a = Some d \<Longrightarrow> get_loan_dict h' a = Some d"
  unfolding get_loan_dict_obj by (rule get_obj_prefix)

lemma get_swap_dict_prefix:
  "prefix h h' \<Longrightarrow> get_swap_dict h a = Some d \<Longrightarrow> get_swap_dict h' a = Some d"
  unfolding get_swap_dict_obj by (rule get_obj_prefix)

lemma block_flash_loans_prefix:
  "prefix h h' \<Longrightarrow> block_flash_loans h a = Some fl \<Longrightarrow> block_flash_loans h' a = Some fl"
  unfolding block_flash_loans_obj by (blast dest: get_obj_prefix)

lemma block_swaps_prefix:
  "prefix h h' \<Longrightarrow> block_swaps h a = Some sw \<Longrightarrow> block_swaps h' a = Some sw"
  unfolding block_swaps_obj by (blast dest: get_obj_prefix)

text \<open>Allocation and the update of a cell beyond a prefix keep the prefix.\<close>

lemma prefix_snoc: "prefix h0 h \<Longrightarrow> prefix h0 (h @ [ob])"
  by (auto simp: prefix_def)

lemma prefix_update: "prefix h0 h \<Longrightarrow> length h0 \<le> a \<Longrightarrow> prefix h0 (h[a := ob])"
  by (auto simp: prefix_def list_update_append)

text \<open>Rewriting a list cell changes no other cell, and no cell that is not a list.\<close>

lemma get_list_update:
  "get_list h a = Some zs \<Longrightarrow> get_list (h[a := PyList zs']) b = (if b = a then Some zs' else get_list h b)"
  by (auto simp: get_list_def get_obj_update dest: get_obj_bound split: option.splits obj.splits)

lemma get_loan_update:
  "get_list h a = Some zs \<Longrightarrow> get_loan (h[a := PyList zs']) = get_loan h"
  by (rule ext) (auto simp: get_list_def get_loan_def get_obj_update split: option.splits obj.splits)

lemma get_swap_update:
  "get_list h a = Some zs \<Longrightarrow> get_swap (h[a := PyList zs']) = get_swap h"
  by (rule ext) (auto simp: get_list_def get_swap_def get_obj_update split: option.splits obj.splits)

lemma get_loan_dict_update:
  "get_list h a = Some zs \<Longrightarrow> get_loan_dict (h[a := PyList zs']) = get_loan_dict h"
  by (rule ext) (auto simp: get_list_def get_loan_dict_def get_obj_update split: option.splits obj.splits)

lemma get_swap_dict_update:
  "get_list h a = Some zs \<Longrightarrow> get_swap_dict (h[a := PyList zs']) = get_swap_dict h"
  by (rule ext) (auto simp: get_list_def get_swap_dict_def get_obj_update split: option.splits obj.splits)

subsection \<open>Reading lists of objects\<close>

lemma read_loans_iff:
  "read_loans h a = Some ls \<longleftrightarrow>
     (\<exists>xs. get_list h a = Some xs \<and> map (get_loan h) xs = map Some ls)"
  by (auto simp: read_loans_def those_map_eq_Some split: Option.bind_splits)

lemma read_swaps_iff:
  "read_swaps h a = Some ss \<longleftrightarrow>
     (\<exists>xs. get_list h a = Some xs \<and> map (get_swap h) xs = map Some ss)"
  by (auto simp: read_swaps_def those_map_eq_Some split: Option.bind_splits)

lemma read_loan_dicts_iff:
  "read_loan_dicts h a = Some ds \<longleftrightarrow>
     (\<exists>xs. get_list h a = Some xs \<and> map (get_loan_dict h) xs = map Some ds)"
  by (auto simp: read_loan_dicts_def those_map_eq_Some split: Option.bind_splits)

lemma read_swap_dicts_iff:
  "read_swap_dicts h a = Some ds \<longleftrightarrow>
     (\<exists>xs. get_list h a = Some xs \<and> map (get_swap_dict h) xs = map Some ds)"
  by (auto simp: read_swap_dicts_def those_map_eq_Some split: Option.bind_splits)

lemma read_window_iff:
  "read_window h a = Some w \<longleftrightarrow>
     (\<exists>xs. get_list h a = Some xs \<and> map (read_block h) xs = map Some w)"
  by (auto simp: read_window_def those_map_eq_Some split: Option.bind_splits)

lemma read_block_iff:
  "read_block h a = Some b \<longleftrightarrow>
     (\<exists>fl sw. get_obj h a = Some (BlockObj fl sw (block_number b) (timestamp b)) \<and>
        read_loans h fl = Some (CollectedData.flash_loans b) \<and>
        read_swaps h sw = Some (swaps b))"
  by (cases b) (auto simp: read_block_def split: option.splits obj.splits Option.bind_splits)

lemma read_loans_prefix:
  assumes "prefix h h'" and "read_loans h a = Some ls"
  shows "read_loans h' a = Some ls"
  using assms(2) unfolding read_loans_iff
  by (blast intro: get_list_prefix [OF assms(1)] map_Some_stable get_loan_prefix [OF assms(1)])

lemma read_swaps_prefix:
  assumes "prefix h h'" and "read_swaps h a = Some ss"
  shows "read_swaps h' a = Some ss"
  using assms(2) unfolding read_swaps_iff
  by (blast intro: get_list_prefix [OF assms(1)] map_Some_stable get_swap_prefix [OF assms(1)])

lemma read_loan_dicts_prefix:
  assumes "prefix h h'" and "read_loan_dicts h a = Some ds"
  shows "read_loan_dicts h' a = Some ds"
  using assms(2) unfolding read_loan_dicts_iff
  by (blast intro: get_list_prefix [OF assms(1)] map_Some_stable get_loan_dict_prefix [OF assms(1)])

lemma read_swap_dicts_prefix:
  assumes "prefix h h'" and "read_swap_dicts h a = Some ds"
  shows "read_swap_dicts h' a = Some ds"
  using assms(2) unfolding read_swap_dicts_iff
  by (blast intro: get_list_prefix [OF assms(1)] map_Some_stable get_swap_dict_prefix [OF assms(1)])

lemma read_block_prefix:
  assumes "prefix h h'" and "read_block h a = Some b"
  shows "read_block h' a = Some b"
  using assms(2) unfolding read_block_iff
  by (blast intro: get_obj_prefix [OF assms(1)] read_loans_prefix [OF assms(1)]
      read_swaps_prefix [OF assms(1)])

lemma read_window_prefix:
  assumes "prefix h h'" and "read_window h a = Some w"
  shows "read_window h' a = Some w"
  using assms(2) unfolding read_window_iff
  by (blast intro: get_list_prefix [OF assms(1)] map_Some_stable read_block_prefix [OF assms(1)])

subsection \<open>Loops\<close>

lemma for_in_rule:
  assumes "I i h" and "i \<le> length xs"
    and lst: "\<And>j h. I j h \<Longrightarrow> get_list h lst = Some xs"
    and step: "\<And>j h. j < length xs \<Longrightarrow> I j h \<Longrightarrow>
                 \<exists>h'. body (xs ! j) h = Some (None, h') \<and> I (Suc j) h'"
  shows "\<exists>h'. for_in lst i body h = Some (None, h') \<and> I (length xs) h'"
  using assms(1,2)
proof (induction "length xs - i" arbitrary: i h)
  case 0
  then have "i = length xs" by simp
  with 0 lst [of i h] show ?case
    by (subst for_in.simps) simp
next
  case (Suc n)
  then have lt: "i < length xs" by simp
  from step [OF lt Suc.prems(1)] obtain h' where
    b: "body (xs ! i) h = Some (None, h')" and i': "I (Suc i) h'" by blast
  have "n = length xs - Suc i" using Suc.hyps(2) by simp
  from Suc.hyps(1) [OF this i'] lt obtain h'' where
    r: "for_in lst (Suc i) body h' = Some (None, h'')" and f: "I (length xs) h''" by auto
  have "for_in lst i body h = Some (None, h'')"
    using lst [OF Suc.prems(1)] lt b r by (subst for_in.simps) simp
  with f show ?case by blast
qed

lemma for_in_readonly:
  assumes lst: "get_list h lst = Some xs"
    and body: "\<And>x. x \<in> set xs \<Longrightarrow> body x h = Some (g x, h)"
    and "i \<le> length xs"
  shows "for_in lst i body h = Some (first_some (map g (drop i xs)), h)"
  using assms(3)
proof (induction "length xs - i" arbitrary: i)
  case 0
  then show ?case using lst by (subst for_in.simps) simp
next
  case (Suc n)
  then have lt: "i < length xs" by simp
  have "n = length xs - Suc i" using Suc.hyps(2) by simp
  from Suc.hyps(1) [OF this] lt
  have r: "for_in lst (Suc i) body h = Some (first_some (map g (drop (Suc i) xs)), h)" by simp
  have d: "drop i xs = xs ! i # drop (Suc i) xs"
    using lt by (simp add: Cons_nth_drop_Suc)
  have b: "body (xs ! i) h = Some (g (xs ! i), h)" using lt by (simp add: body)
  show ?case
    using lst lt b r d by (subst for_in.simps) (cases "g (xs ! i)"; simp)
qed

subsection \<open>The loops of \<^verbatim>\<open>should_respond\<close>\<close>

lemma read_loans_append:
  assumes "read_loans h acc = Some V" and "get_loan h x = Some l"
  shows "\<exists>h'. list_append acc x h = Some h' \<and> read_loans h' acc = Some (V @ [l]) \<and>
           (\<forall>hb. prefix hb h \<longrightarrow> length hb \<le> acc \<longrightarrow> prefix hb h')"
proof -
  from assms(1) obtain xs where xs: "get_list h acc = Some xs"
    and m: "map (get_loan h) xs = map Some V"
    unfolding read_loans_iff by blast
  let ?h = "h[acc := PyList (xs @ [x])]"
  have "list_append acc x h = Some ?h" by (simp add: list_append_def xs)
  moreover have "read_loans ?h acc = Some (V @ [l])"
    unfolding read_loans_iff
    by (simp add: get_list_update [OF xs] get_loan_update [OF xs] m assms(2))
  ultimately show ?thesis by (auto intro: prefix_update)
qed

lemma read_swaps_append:
  assumes "read_swaps h acc = Some V" and "get_swap h x = Some s"
  shows "\<exists>h'. list_append acc x h = Some h' \<and> read_swaps h' acc = Some (V @ [s]) \<and>
           (\<forall>hb. prefix hb h \<longrightarrow> length hb \<le> acc \<longrightarrow> prefix hb h')"
proof -
  from assms(1) obtain xs where xs: "get_list h acc = Some xs"
    and m: "map (get_swap h) xs = map Some V"
    unfolding read_swaps_iff by blast
  let ?h = "h[acc := PyList (xs @ [x])]"
  have "list_append acc x h = Some ?h" by (simp add: list_append_def xs)
  moreover have "read_swaps ?h acc = Some (V @ [s])"
    unfolding read_swaps_iff
    by (simp add: get_list_update [OF xs] get_swap_update [OF xs] m assms(2))
  ultimately show ?thesis by (auto intro: prefix_update)
qed

lemma loans_loop:
  assumes hb: "prefix hb h" "length hb \<le> acc"
    and lst: "get_list hb lst = Some las" "map (get_loan hb) las = map Some ls"
    and acc: "read_loans h acc = Some V"
  shows "\<exists>h'. for_in lst 0 (append_if_large self acc) h = Some (None, h') \<and> prefix hb h' \<and>
           read_loans h' acc =
             Some (V @ filter (\<lambda>l. py_ge (FlashLoan.amount l) (min_flash_loan_size self)) ls)"
proof -
  let ?q = "\<lambda>l. py_ge (FlashLoan.amount l) (min_flash_loan_size self)"
  let ?I = "\<lambda>j h'. prefix hb h' \<and> read_loans h' acc = Some (V @ filter ?q (take j ls))"
  have len: "length ls = length las" using lst(2) by (rule map_Some_length)
  have "\<exists>h'. for_in lst 0 (append_if_large self acc) h = Some (None, h') \<and> ?I (length las) h'"
  proof (rule for_in_rule [where I = ?I])
    show "?I 0 h" using hb acc by simp
    show "0 \<le> length las" by simp
    show "get_list h' lst = Some las" if "?I j h'" for j h'
      using that lst(1) by (blast intro: get_list_prefix)
    show "\<exists>h''. append_if_large self acc (las ! j) h' = Some (None, h'') \<and> ?I (Suc j) h''"
      if j: "j < length las" and I: "?I j h'" for j h'
    proof -
      have l: "get_loan h' (las ! j) = Some (ls ! j)"
        using I map_Some_nth [OF lst(2) j] by (blast intro: get_loan_prefix)
      have t: "take (Suc j) ls = take j ls @ [ls ! j]"
        using j len by (simp add: take_Suc_conv_app_nth)
      show ?thesis
      proof (cases "?q (ls ! j)")
        case True
        from read_loans_append [OF conjunct2 [OF I] l] obtain h'' where
          "list_append acc (las ! j) h' = Some h''"
          "read_loans h'' acc = Some ((V @ filter ?q (take j ls)) @ [ls ! j])"
          "prefix hb h''"
          using I hb(2) by blast
        then show ?thesis
          using True l t by (simp add: append_if_large_def)
      next
        case False
        then show ?thesis
          using I l t by (simp add: append_if_large_def)
      qed
    qed
  qed
  then show ?thesis using len by simp
qed

lemma swaps_loop:
  assumes hb: "prefix hb h" "length hb \<le> acc"
    and lst: "get_list hb lst = Some sas" "map (get_swap hb) sas = map Some ss"
    and acc: "read_swaps h acc = Some V"
  shows "\<exists>h'. for_in lst 0 (append_if_high_impact self acc) h = Some (None, h') \<and> prefix hb h' \<and>
           read_swaps h' acc =
             Some (V @ filter (\<lambda>s. py_ge (Swap.price_impact s) (min_price_impact self)) ss)"
proof -
  let ?q = "\<lambda>s. py_ge (Swap.price_impact s) (min_price_impact self)"
  let ?I = "\<lambda>j h'. prefix hb h' \<and> read_swaps h' acc = Some (V @ filter ?q (take j ss))"
  have len: "length ss = length sas" using lst(2) by (rule map_Some_length)
  have "\<exists>h'. for_in lst 0 (append_if_high_impact self acc) h = Some (None, h') \<and> ?I (length sas) h'"
  proof (rule for_in_rule [where I = ?I])
    show "?I 0 h" using hb acc by simp
    show "0 \<le> length sas" by simp
    show "get_list h' lst = Some sas" if "?I j h'" for j h'
      using that lst(1) by (blast intro: get_list_prefix)
    show "\<exists>h''. append_if_high_impact self acc (sas ! j) h' = Some (None, h'') \<and> ?I (Suc j) h''"
      if j: "j < length sas" and I: "?I j h'" for j h'
    proof -
      have l: "get_swap h' (sas ! j) = Some (ss ! j)"
        using I map_Some_nth [OF lst(2) j] by (blast intro: get_swap_prefix)
      have t: "take (Suc j) ss = take j ss @ [ss ! j]"
        using j len by (simp add: take_Suc_conv_app_nth)
      show ?thesis
      proof (cases "?q (ss ! j)")
        case True
        from read_swaps_append [OF conjunct2 [OF I] l] obtain h'' where
          "list_append acc (sas ! j) h' = Some h''"
          "read_swaps h'' acc = Some ((V @ filter ?q (take j ss)) @ [ss ! j])"
          "prefix hb h''"
          using I hb(2) by blast
        then show ?thesis
          using True l t by (simp add: append_if_high_impact_def)
      next
        case False
        then show ?thesis
          using I l t by (simp add: append_if_high_impact_def)
      qed
    qed
  qed
  then show ?thesis using len by simp
qed

lemma find_loans_loop:
  assumes hb: "prefix hb h" "length hb \<le> acc"
    and rb: "get_list hb recent = Some rb" "map (read_block hb) rb = map Some w"
    and acc: "read_loans h acc = Some V"
  shows "\<exists>h'. for_in recent 0 (loans_of_block self acc) h = Some (None, h') \<and> prefix hb h' \<and>
           read_loans h' acc = Some (find_flash_loans self w V)"
proof -
  let ?f = "\<lambda>b. filter (\<lambda>l. py_ge (FlashLoan.amount l) (min_flash_loan_size self))
                    (CollectedData.flash_loans b)"
  let ?I = "\<lambda>j h'. prefix hb h' \<and> read_loans h' acc = Some (V @ concat (map ?f (take j w)))"
  have len: "length w = length rb" using rb(2) by (rule map_Some_length)
  have "\<exists>h'. for_in recent 0 (loans_of_block self acc) h = Some (None, h') \<and> ?I (length rb) h'"
  proof (rule for_in_rule [where I = ?I])
    show "?I 0 h" using hb acc by simp
    show "0 \<le> length rb" by simp
    show "get_list h' recent = Some rb" if "?I j h'" for j h'
      using that rb(1) by (blast intro: get_list_prefix)
    show "\<exists>h''. loans_of_block self acc (rb ! j) h' = Some (None, h'') \<and> ?I (Suc j) h''"
      if j: "j < length rb" and I: "?I j h'" for j h'
    proof -
      from map_Some_nth [OF rb(2) j] obtain fl sw las where
        b: "get_obj hb (rb ! j) = Some (BlockObj fl sw (block_number (w ! j)) (timestamp (w ! j)))"
        and las: "get_list hb fl = Some las"
          "map (get_loan hb) las = map Some (CollectedData.flash_loans (w ! j))"
        unfolding read_block_iff read_loans_iff by blast
      have fl: "block_flash_loans h' (rb ! j) = Some fl"
        using b I unfolding block_flash_loans_obj by (blast dest: get_obj_prefix)
      from loans_loop [OF conjunct1 [OF I] hb(2) las conjunct2 [OF I], of self]
      obtain h'' where
        "for_in fl 0 (append_if_large self acc) h' = Some (None, h'')" "prefix hb h''"
        "read_loans h'' acc = Some ((V @ concat (map ?f (take j w))) @ ?f (w ! j))"
        by blast
      moreover have "take (Suc j) w = take j w @ [w ! j]"
        using j len by (simp add: take_Suc_conv_app_nth)
      ultimately show ?thesis
        using fl by (simp add: loans_of_block_def)
    qed
  qed
  then show ?thesis using len by (simp add: find_flash_loans_eq)
qed

lemma find_swaps_loop:
  assumes hb: "prefix hb h" "length hb \<le> acc"
    and rb: "get_list hb recent = Some rb" "map (read_block hb) rb = map Some w"
    and acc: "read_swaps h acc = Some V"
  shows "\<exists>h'. for_in recent 0 (swaps_of_block self acc) h = Some (None, h') \<and> prefix hb h' \<and>
           read_swaps h' acc = Some (find_high_impact_swaps self w V)"
proof -
  let ?f = "\<lambda>b. filter (\<lambda>s. py_ge (Swap.price_impact s) (min_price_impact self)) (swaps b)"
  let ?I = "\<lambda>j h'. prefix hb h' \<and> read_swaps h' acc = Some (V @ concat (map ?f (take j w)))"
  have len: "length w = length rb" using rb(2) by (rule map_Some_length)
  have "\<exists>h'. for_in recent 0 (swaps_of_block self acc) h = Some (None, h') \<and> ?I (length rb) h'"
  proof (rule for_in_rule [where I = ?I])
    show "?I 0 h" using hb acc by simp
    show "0 \<le> length rb" by simp
    show "get_list h' recent = Some rb" if "?I j h'" for j h'
      using that rb(1) by (blast intro: get_list_prefix)
    show "\<exists>h''. swaps_of_block self acc (rb ! j) h' = Some (None, h'') \<and> ?I (Suc j) h''"
      if j: "j < length rb" and I: "?I j h'" for j h'
    proof -
      from map_Some_nth [OF rb(2) j] obtain fl sw sas where
        b: "get_obj hb (rb ! j) = Some (BlockObj fl sw (block_number (w ! j)) (timestamp (w ! j)))"
        and sas: "get_list hb sw = Some sas" "map (get_swap hb) sas = map Some (swaps (w ! j))"
        unfolding read_block_iff read_swaps_iff by blast
      have sw: "block_swaps h' (rb ! j) = Some sw"
        using b I unfolding block_swaps_obj by (blast dest: get_obj_prefix)
      from swaps_loop [OF conjunct1 [OF I] hb(2) sas conjunct2 [OF I], of self]
      obtain h'' where
        "for_in sw 0 (append_if_high_impact self acc) h' = Some (None, h'')" "prefix hb h''"
        "read_swaps h'' acc = Some ((V @ concat (map ?f (take j w))) @ ?f (w ! j))"
        by blast
      moreover have "take (Suc j) w = take j w @ [w ! j]"
        using j len by (simp add: take_Suc_conv_app_nth)
      ultimately show ?thesis
        using sw by (simp add: swaps_of_block_def)
    qed
  qed
  then show ?thesis using len by (simp add: find_high_impact_swaps_eq)
qed

text \<open>Step 3 reads only.\<close>

lemma first_some_related_swap:
  assumes "get_loan h loan = Some l" and "map (get_swap h) sa = map Some ss"
  shows "first_some (map (\<lambda>swap. case get_swap h swap of
                                   None \<Rightarrow> None
                                 | Some s \<Rightarrow> if FlashLoan.tx_hash l = Swap.tx_hash s
                                                \<or> FlashLoan.borrower l = Swap.trader s
                                             then Some True else None) sa)
         = (if related_swap l ss then Some True else None)"
  using assms(2)
proof (induction sa arbitrary: ss)
  case Nil
  then show ?case by simp
next
  case (Cons x sa)
  then show ?case by (cases ss) auto
qed

lemma check_loan_eq:
  assumes "get_loan h loan = Some l"
    and "get_list h high = Some sa" and "map (get_swap h) sa = map Some ss"
  shows "check_loan high loan h = Some (if related_swap l ss then Some True else None, h)"
proof -
  let ?g = "\<lambda>swap. case get_swap h swap of
                      None \<Rightarrow> None
                    | Some s \<Rightarrow> if FlashLoan.tx_hash l = Swap.tx_hash s
                                   \<or> FlashLoan.borrower l = Swap.trader s
                                then Some True else None"
  have body: "check_pair loan x h = Some (?g x, h)" if "x \<in> set sa" for x
  proof -
    from that assms(3) obtain s where "get_swap h x = Some s"
      by (metis in_set_conv_nth map_Some_nth)
    then show ?thesis by (simp add: check_pair_def assms(1))
  qed
  have "for_in high 0 (check_pair loan) h = Some (first_some (map ?g (drop 0 sa)), h)"
    by (rule for_in_readonly [where g = ?g and body = "check_pair loan" and h = h and xs = sa,
          OF assms(2) body]) simp_all
  then show ?thesis
    unfolding check_loan_def by (simp add: first_some_related_swap [OF assms(1,3)])
qed

lemma first_some_related:
  assumes "map (get_loan h) fa = map Some ls"
  shows "first_some (map (\<lambda>loan. case get_loan h loan of
                                   None \<Rightarrow> None
                                 | Some l \<Rightarrow> if related_swap l ss then Some True else None) fa)
         = (if related ls ss then Some True else None)"
  using assms
proof (induction fa arbitrary: ls)
  case Nil
  then show ?case by simp
next
  case (Cons x fa)
  then show ?case by (cases ls) auto
qed

lemma related_loop:
  assumes "read_loans h found = Some ls" and "read_swaps h high = Some ss"
  shows "for_in found 0 (check_loan high) h = Some (if related ls ss then Some True else None, h)"
proof -
  from assms obtain fa sa where
    fa: "get_list h found = Some fa" "map (get_loan h) fa = map Some ls" and
    sa: "get_list h high = Some sa" "map (get_swap h) sa = map Some ss"
    unfolding read_loans_iff read_swaps_iff by blast
  let ?g = "\<lambda>loan. case get_loan h loan of
                      None \<Rightarrow> None
                    | Some l \<Rightarrow> if related_swap l ss then Some True else None"
  have body: "check_loan high x h = Some (?g x, h)" if "x \<in> set fa" for x
  proof -
    from that fa(2) obtain l where l: "get_loan h x = Some l"
      by (metis in_set_conv_nth map_Some_nth)
    from check_loan_eq [OF l sa] l show ?thesis by simp
  qed
  have "for_in found 0 (check_loan high) h = Some (first_some (map ?g (drop 0 fa)), h)"
    by (rule for_in_readonly [where g = ?g and body = "check_loan high" and h = h and xs = fa,
          OF fa(1) body]) simp_all
  then show ?thesis by (simp add: first_some_related [OF fa(2)])
qed

lemma recent_blocks_of_map: "recent_blocks_of (map f xs) = map f (recent_blocks_of xs)"
  by (simp add: recent_blocks_of_def last_two_def drop_map)

lemma map_Some_Nil_iff: "map g xs = map Some ys \<Longrightarrow> xs = [] \<longleftrightarrow> ys = []"
  by (cases xs; cases ys) simp_all

text \<open>
  The two runs refine the functions on values: on a heap that holds a window, each run
  returns, its result is the result of the function on the window read from the heap, and
  the heap after the run is the heap before it followed by the cells the run allocated.
\<close>

lemma should_respond_h_correct:
  assumes "read_window h a = Some w"
  shows "\<exists>h'. should_respond_h self a h = Some (should_respond self w, h') \<and> prefix h h'"
proof -
  from assms obtain bs where bs: "get_list h a = Some bs" "map (read_block h) bs = map Some w"
    unfolding read_window_iff by blast
  show ?thesis
  proof (cases "w = []")
    case True
    with bs(2) have "bs = []" by simp
    with True bs(1) show ?thesis
      by (simp add: should_respond_h_def should_respond_def)
  next
    case False
    with bs(2) have ne: "\<not> length bs < 1" "\<not> length w < 1" by (cases bs; cases w; simp)+
    define recent where "recent = (if 2 \<le> length bs then length h else a)"
    define h1 where "h1 = (if 2 \<le> length bs then h @ [PyList (last_two bs)] else h)"
    have p1: "prefix h h1" by (simp add: h1_def)
    have r1: "(if 2 \<le> length bs then alloc (PyList (last_two bs)) h else Some (a, h))
                = Some (recent, h1)"
      by (simp add: recent_def h1_def alloc_def)
    have rb: "get_list h1 recent = Some (recent_blocks_of bs)"
      using bs(1) by (auto simp: recent_def h1_def recent_blocks_of_def get_list_obj)
    have "map (read_block h) (recent_blocks_of bs) = map Some (recent_blocks_of w)"
      using bs(2) by (simp flip: recent_blocks_of_map)
    then have rbv: "map (read_block h1) (recent_blocks_of bs) = map Some (recent_blocks_of w)"
      by (rule map_Some_stable) (rule read_block_prefix [OF p1])
    let ?h2 = "h1 @ [PyList []]"
    let ?FL = "find_flash_loans self (recent_blocks_of w) []"
    let ?HS = "find_high_impact_swaps self (recent_blocks_of w) []"
    have a2: "read_loans ?h2 (length h1) = Some []"
      by (simp add: read_loans_iff get_list_obj)
    from find_loans_loop [OF prefix_snoc [OF prefix_order.refl] order_refl rb rbv a2, of self]
    obtain h3 where
      l3: "for_in recent 0 (loans_of_block self (length h1)) ?h2 = Some (None, h3)" and
      p3: "prefix h1 h3" and
      f3: "read_loans h3 (length h1) = Some ?FL"
      by blast
    from f3 obtain fa where
      fa: "get_list h3 (length h1) = Some fa" "map (get_loan h3) fa = map Some ?FL"
      unfolding read_loans_iff by blast
    have fa_nil: "fa = [] \<longleftrightarrow> ?FL = []" using fa(2) by (rule map_Some_Nil_iff)
    have p03: "prefix h h3" using p1 p3 by (rule prefix_order.trans)
    show ?thesis
    proof (cases "?FL = []")
      case True
      then show ?thesis
        using bs(1) ne r1 l3 fa(1) fa_nil p03
        by (simp add: should_respond_h_def should_respond_def alloc_def Let_def)
    next
      case fl: False
      let ?h4 = "h3 @ [PyList []]"
      have rb3: "get_list h3 recent = Some (recent_blocks_of bs)"
        using p3 rb by (rule get_list_prefix)
      have rbv3: "map (read_block h3) (recent_blocks_of bs) = map Some (recent_blocks_of w)"
        using rbv by (rule map_Some_stable) (rule read_block_prefix [OF p3])
      have a4: "read_swaps ?h4 (length h3) = Some []"
        by (simp add: read_swaps_iff get_list_obj)
      from find_swaps_loop [OF prefix_snoc [OF prefix_order.refl] order_refl rb3 rbv3 a4, of self]
      obtain h5 where
        l5: "for_in recent 0 (swaps_of_block self (length h3)) ?h4 = Some (None, h5)" and
        p5: "prefix h3 h5" and
        f5: "read_swaps h5 (length h3) = Some ?HS"
        by blast
      from f5 obtain sa where
        sa: "get_list h5 (length h3) = Some sa" "map (get_swap h5) sa = map Some ?HS"
        unfolding read_swaps_iff by blast
      have sa_nil: "sa = [] \<longleftrightarrow> ?HS = []" using sa(2) by (rule map_Some_Nil_iff)
      have p05: "prefix h h5" using p03 p5 by (rule prefix_order.trans)
      have f3': "read_loans h5 (length h1) = Some ?FL"
        using p5 f3 by (rule read_loans_prefix)
      have l6: "for_in (length h1) 0 (check_loan (length h3)) h5
                  = Some (if related ?FL ?HS then Some True else None, h5)"
        using f3' f5 by (rule related_loop)
      show ?thesis
        using bs(1) ne r1 l3 fa(1) fa_nil fl l5 sa(1) sa_nil l6 p05
        by (simp add: should_respond_h_def should_respond_def alloc_def Let_def)
    qed
  qed
qed

subsection \<open>The loops of \<^verbatim>\<open>get_alert_details\<close>\<close>

lemma read_loan_dicts_update:
  "get_list h a = Some zs \<Longrightarrow> a \<noteq> b \<Longrightarrow>
     read_loan_dicts (h[a := PyList zs']) b = read_loan_dicts h b"
  by (simp add: read_loan_dicts_def get_list_update get_loan_dict_update)

lemma read_swap_dicts_update:
  "get_list h a = Some zs \<Longrightarrow> a \<noteq> b \<Longrightarrow>
     read_swap_dicts (h[a := PyList zs']) b = read_swap_dicts h b"
  by (simp add: read_swap_dicts_def get_list_update get_swap_dict_update)

lemma add_loan_entry_step:
  assumes l: "get_loan h x = Some l" and tmp: "read_loan_dicts h tmp = Some D"
    and hb: "prefix hb h" "length hb \<le> tmp"
  shows "\<exists>h'. add_loan_entry self tmp x h = Some (None, h') \<and> prefix hb h' \<and>
           read_loan_dicts h' tmp =
             Some (D @ map loan_entry
                         (filter (\<lambda>l. py_ge (FlashLoan.amount l) (min_flash_loan_size self)) [l]))"
proof (cases "py_ge (FlashLoan.amount l) (min_flash_loan_size self)")
  case False
  then show ?thesis using assms by (simp add: add_loan_entry_def)
next
  case True
  from tmp obtain xs where xs: "get_list h tmp = Some xs"
    and m: "map (get_loan_dict h) xs = map Some D"
    unfolding read_loan_dicts_iff by blast
  let ?h1 = "h @ [LoanDict (loan_entry l)]"
  let ?h2 = "?h1[tmp := PyList (xs @ [length h])]"
  have p: "prefix h ?h1" by simp
  have xs1: "get_list ?h1 tmp = Some xs" using p xs by (rule get_list_prefix)
  have m1: "map (get_loan_dict ?h1) xs = map Some D"
    using m by (rule map_Some_stable) (rule get_loan_dict_prefix [OF p])
  have d: "get_loan_dict ?h1 (length h) = Some (loan_entry l)"
    by (simp add: get_loan_dict_obj)
  have "add_loan_entry self tmp x h = Some (None, ?h2)"
    using True l xs1 by (simp add: add_loan_entry_def alloc_def list_append_def)
  moreover have "prefix hb ?h2"
    using hb by (intro prefix_update prefix_snoc)
  moreover have "read_loan_dicts ?h2 tmp = Some (D @ [loan_entry l])"
    unfolding read_loan_dicts_iff
    using m1 d by (simp add: get_list_update [OF xs1] get_loan_dict_update [OF xs1])
  ultimately show ?thesis using True by simp
qed

lemma add_swap_entry_step:
  assumes s: "get_swap h x = Some s" and tmp: "read_swap_dicts h tmp = Some D"
    and hb: "prefix hb h" "length hb \<le> tmp"
  shows "\<exists>h'. add_swap_entry self tmp x h = Some (None, h') \<and> prefix hb h' \<and>
           read_swap_dicts h' tmp =
             Some (D @ map swap_entry
                         (filter (\<lambda>s. py_ge (Swap.price_impact s) (min_price_impact self)) [s]))"
proof (cases "py_ge (Swap.price_impact s) (min_price_impact self)")
  case False
  then show ?thesis using assms by (simp add: add_swap_entry_def)
next
  case True
  from tmp obtain xs where xs: "get_list h tmp = Some xs"
    and m: "map (get_swap_dict h) xs = map Some D"
    unfolding read_swap_dicts_iff by blast
  let ?h1 = "h @ [SwapDict (swap_entry s)]"
  let ?h2 = "?h1[tmp := PyList (xs @ [length h])]"
  have p: "prefix h ?h1" by simp
  have xs1: "get_list ?h1 tmp = Some xs" using p xs by (rule get_list_prefix)
  have m1: "map (get_swap_dict ?h1) xs = map Some D"
    using m by (rule map_Some_stable) (rule get_swap_dict_prefix [OF p])
  have d: "get_swap_dict ?h1 (length h) = Some (swap_entry s)"
    by (simp add: get_swap_dict_obj)
  have "add_swap_entry self tmp x h = Some (None, ?h2)"
    using True s xs1 by (simp add: add_swap_entry_def alloc_def list_append_def)
  moreover have "prefix hb ?h2"
    using hb by (intro prefix_update prefix_snoc)
  moreover have "read_swap_dicts ?h2 tmp = Some (D @ [swap_entry s])"
    unfolding read_swap_dicts_iff
    using m1 d by (simp add: get_list_update [OF xs1] get_swap_dict_update [OF xs1])
  ultimately show ?thesis using True by simp
qed

lemma loan_entries_loop:
  assumes hb: "prefix hb h" "length hb \<le> tmp"
    and lst: "get_list hb lst = Some las" "map (get_loan hb) las = map Some ls"
    and tmp: "read_loan_dicts h tmp = Some D"
  shows "\<exists>h'. for_in lst 0 (add_loan_entry self tmp) h = Some (None, h') \<and> prefix hb h' \<and>
           read_loan_dicts h' tmp =
             Some (D @ map loan_entry
                         (filter (\<lambda>l. py_ge (FlashLoan.amount l) (min_flash_loan_size self)) ls))"
proof -
  let ?q = "\<lambda>l. py_ge (FlashLoan.amount l) (min_flash_loan_size self)"
  let ?I = "\<lambda>j h'. prefix hb h' \<and>
                   read_loan_dicts h' tmp = Some (D @ map loan_entry (filter ?q (take j ls)))"
  have len: "length ls = length las" using lst(2) by (rule map_Some_length)
  have "\<exists>h'. for_in lst 0 (add_loan_entry self tmp) h = Some (None, h') \<and> ?I (length las) h'"
  proof (rule for_in_rule [where I = ?I])
    show "?I 0 h" using hb tmp by simp
    show "0 \<le> length las" by simp
    show "get_list h' lst = Some las" if "?I j h'" for j h'
      using that lst(1) by (blast intro: get_list_prefix)
    show "\<exists>h''. add_loan_entry self tmp (las ! j) h' = Some (None, h'') \<and> ?I (Suc j) h''"
      if j: "j < length las" and I: "?I j h'" for j h'
    proof -
      have l: "get_loan h' (las ! j) = Some (ls ! j)"
        using I map_Some_nth [OF lst(2) j] by (blast intro: get_loan_prefix)
      have t: "take (Suc j) ls = take j ls @ [ls ! j]"
        using j len by (simp add: take_Suc_conv_app_nth)
      from add_loan_entry_step [OF l conjunct2 [OF I] conjunct1 [OF I] hb(2), of self]
      show ?thesis unfolding t by simp
    qed
  qed
  then show ?thesis using len by simp
qed

lemma swap_entries_loop:
  assumes hb: "prefix hb h" "length hb \<le> tmp"
    and lst: "get_list hb lst = Some sas" "map (get_swap hb) sas = map Some ss"
    and tmp: "read_swap_dicts h tmp = Some D"
  shows "\<exists>h'. for_in lst 0 (add_swap_entry self tmp) h = Some (None, h') \<and> prefix hb h' \<and>
           read_swap_dicts h' tmp =
             Some (D @ map swap_entry
                         (filter (\<lambda>s. py_ge (Swap.price_impact s) (min_price_impact self)) ss))"
proof -
  let ?q = "\<lambda>s. py_ge (Swap.price_impact s) (min_price_impact self)"
  let ?I = "\<lambda>j h'. prefix hb h' \<and>
                   read_swap_dicts h' tmp = Some (D @ map swap_entry (filter ?q (take j ss)))"
  have len: "length ss = length sas" using lst(2) by (rule map_Some_length)
  have "\<exists>h'. for_in lst 0 (add_swap_entry self tmp) h = Some (None, h') \<and> ?I (length sas) h'"
  proof (rule for_in_rule [where I = ?I])
    show "?I 0 h" using hb tmp by simp
    show "0 \<le> length sas" by simp
    show "get_list h' lst = Some sas" if "?I j h'" for j h'
      using that lst(1) by (blast intro: get_list_prefix)
    show "\<exists>h''. add_swap_entry self tmp (sas ! j) h' = Some (None, h'') \<and> ?I (Suc j) h''"
      if j: "j < length sas" and I: "?I j h'" for j h'
    proof -
      have l: "get_swap h' (sas ! j) = Some (ss ! j)"
        using I map_Some_nth [OF lst(2) j] by (blast intro: get_swap_prefix)
      have t: "take (Suc j) ss = take j ss @ [ss ! j]"
        using j len by (simp add: take_Suc_conv_app_nth)
      from add_swap_entry_step [OF l conjunct2 [OF I] conjunct1 [OF I] hb(2), of self]
      show ?thesis unfolding t by simp
    qed
  qed
  then show ?thesis using len by simp
qed

lemma read_loan_dicts_extend:
  assumes "read_loan_dicts h acc = Some D" and "read_loan_dicts h tmp = Some T"
  shows "\<exists>xs zs. get_list h acc = Some xs \<and> list_extend acc tmp h = Some (h[acc := PyList zs]) \<and>
           read_loan_dicts (h[acc := PyList zs]) acc = Some (D @ T)"
proof -
  from assms obtain xs ys where xs: "get_list h acc = Some xs"
    "map (get_loan_dict h) xs = map Some D" and ys: "get_list h tmp = Some ys"
    "map (get_loan_dict h) ys = map Some T"
    unfolding read_loan_dicts_iff by blast
  have "list_extend acc tmp h = Some (h[acc := PyList (xs @ ys)])"
    by (simp add: list_extend_def xs ys)
  moreover have "read_loan_dicts (h[acc := PyList (xs @ ys)]) acc = Some (D @ T)"
    unfolding read_loan_dicts_iff
    by (simp add: get_list_update [OF xs(1)] get_loan_dict_update [OF xs(1)] xs(2) ys(2))
  ultimately show ?thesis using xs(1) by blast
qed

lemma read_swap_dicts_extend:
  assumes "read_swap_dicts h acc = Some D" and "read_swap_dicts h tmp = Some T"
  shows "\<exists>xs zs. get_list h acc = Some xs \<and> list_extend acc tmp h = Some (h[acc := PyList zs]) \<and>
           read_swap_dicts (h[acc := PyList zs]) acc = Some (D @ T)"
proof -
  from assms obtain xs ys where xs: "get_list h acc = Some xs"
    "map (get_swap_dict h) xs = map Some D" and ys: "get_list h tmp = Some ys"
    "map (get_swap_dict h) ys = map Some T"
    unfolding read_swap_dicts_iff by blast
  have "list_extend acc tmp h = Some (h[acc := PyList (xs @ ys)])"
    by (simp add: list_extend_def xs ys)
  moreover have "read_swap_dicts (h[acc := PyList (xs @ ys)]) acc = Some (D @ T)"
    unfolding read_swap_dicts_iff
    by (simp add: get_list_update [OF xs(1)] get_swap_dict_update [OF xs(1)] xs(2) ys(2))
  ultimately show ?thesis using xs(1) by blast
qed

lemma alert_block_step:
  assumes hb: "prefix hb h" "length hb \<le> la" "length hb \<le> sa" "la \<noteq> sa"
    and blk: "read_block hb blk = Some b"
    and la: "read_loan_dicts h la = Some D1" and sa: "read_swap_dicts h sa = Some D2"
  shows "\<exists>h'. alert_block self la sa blk h = Some (None, h') \<and> prefix hb h' \<and>
           read_loan_dicts h' la =
             Some (D1 @ map loan_entry
                          (filter (\<lambda>l. py_ge (FlashLoan.amount l) (min_flash_loan_size self))
                             (CollectedData.flash_loans b))) \<and>
           read_swap_dicts h' sa =
             Some (D2 @ map swap_entry
                          (filter (\<lambda>s. py_ge (Swap.price_impact s) (min_price_impact self))
                             (swaps b)))"
proof -
  let ?T1 = "map loan_entry (filter (\<lambda>l. py_ge (FlashLoan.amount l) (min_flash_loan_size self))
                             (CollectedData.flash_loans b))"
  let ?T2 = "map swap_entry (filter (\<lambda>s. py_ge (Swap.price_impact s) (min_price_impact self))
                             (swaps b))"
  from blk obtain fl sw las sas where
    b: "get_obj hb blk = Some (BlockObj fl sw (block_number b) (timestamp b))" and
    las: "get_list hb fl = Some las" "map (get_loan hb) las = map Some (CollectedData.flash_loans b)" and
    sas: "get_list hb sw = Some sas" "map (get_swap hb) sas = map Some (swaps b)"
    unfolding read_block_iff read_loans_iff read_swaps_iff by blast
  have fl: "block_flash_loans h blk = Some fl"
    using b hb(1) unfolding block_flash_loans_obj by (blast dest: get_obj_prefix)
  \<comment> \<open>the first comprehension\<close>
  let ?h1 = "h @ [PyList []]"
  have las_h: "get_list h fl = Some las" using hb(1) las(1) by (rule get_list_prefix)
  have lasv_h: "map (get_loan h) las = map Some (CollectedData.flash_loans b)"
    using las(2) by (rule map_Some_stable) (rule get_loan_prefix [OF hb(1)])
  have t1: "read_loan_dicts ?h1 (length h) = Some []"
    by (simp add: read_loan_dicts_iff get_list_obj)
  from loan_entries_loop [OF prefix_snoc [OF prefix_order.refl] order_refl las_h lasv_h t1, of self]
  obtain h2 where
    l2: "for_in fl 0 (add_loan_entry self (length h)) ?h1 = Some (None, h2)" and
    p2: "prefix h h2" and
    r2: "read_loan_dicts h2 (length h) = Some ?T1"
    by auto
  have la2: "read_loan_dicts h2 la = Some D1" using p2 la by (rule read_loan_dicts_prefix)
  have sa2: "read_swap_dicts h2 sa = Some D2" using p2 sa by (rule read_swap_dicts_prefix)
  from read_loan_dicts_extend [OF la2 r2] obtain xs zs where
    xs: "get_list h2 la = Some xs" and
    e3: "list_extend la (length h) h2 = Some (h2[la := PyList zs])" and
    la3: "read_loan_dicts (h2[la := PyList zs]) la = Some (D1 @ ?T1)"
    by blast
  let ?h3 = "h2[la := PyList zs]"
  have sa3: "read_swap_dicts ?h3 sa = Some D2"
    using sa2 by (simp add: read_swap_dicts_update [OF xs hb(4)])
  have pb2: "prefix hb h2" using hb(1) p2 by (rule prefix_order.trans)
  have pb3: "prefix hb ?h3" using pb2 hb(2) by (rule prefix_update)
  \<comment> \<open>the second comprehension\<close>
  have sw: "block_swaps ?h3 blk = Some sw"
    using b pb3 unfolding block_swaps_obj by (blast dest: get_obj_prefix)
  let ?h4 = "?h3 @ [PyList []]"
  have sas_h: "get_list ?h3 sw = Some sas" using pb3 sas(1) by (rule get_list_prefix)
  have sasv_h: "map (get_swap ?h3) sas = map Some (swaps b)"
    using sas(2) by (rule map_Some_stable) (rule get_swap_prefix [OF pb3])
  have t4: "read_swap_dicts ?h4 (length ?h3) = Some []"
    by (simp add: read_swap_dicts_iff get_list_obj)
  from swap_entries_loop [OF prefix_snoc [OF prefix_order.refl] order_refl sas_h sasv_h t4, of self]
  obtain h5 where
    l5: "for_in sw 0 (add_swap_entry self (length ?h3)) ?h4 = Some (None, h5)" and
    p5: "prefix ?h3 h5" and
    r5: "read_swap_dicts h5 (length ?h3) = Some ?T2"
    by auto
  have la5: "read_loan_dicts h5 la = Some (D1 @ ?T1)" using p5 la3 by (rule read_loan_dicts_prefix)
  have sa5: "read_swap_dicts h5 sa = Some D2" using p5 sa3 by (rule read_swap_dicts_prefix)
  from read_swap_dicts_extend [OF sa5 r5] obtain ys zs' where
    ys: "get_list h5 sa = Some ys" and
    e6: "list_extend sa (length ?h3) h5 = Some (h5[sa := PyList zs'])" and
    sa6: "read_swap_dicts (h5[sa := PyList zs']) sa = Some (D2 @ ?T2)"
    by blast
  let ?h6 = "h5[sa := PyList zs']"
  have la6: "read_loan_dicts ?h6 la = Some (D1 @ ?T1)"
    using la5 hb(4) by (simp add: read_loan_dicts_update [OF ys])
  have pb5: "prefix hb h5" using pb3 p5 by (rule prefix_order.trans)
  have pb6: "prefix hb ?h6" using pb5 hb(3) by (rule prefix_update)
  have "alert_block self la sa blk h = Some (None, ?h6)"
    using fl l2 e3 sw l5 e6 by (simp add: alert_block_def alloc_def)
  with pb6 la6 sa6 show ?thesis by blast
qed

lemma alert_loop_h:
  assumes hb: "prefix hb h" "length hb \<le> la" "length hb \<le> sa" "la \<noteq> sa"
    and rb: "get_list hb recent = Some rb" "map (read_block hb) rb = map Some w"
    and la: "read_loan_dicts h la = Some D1" and sa: "read_swap_dicts h sa = Some D2"
  shows "\<exists>h'. for_in recent 0 (alert_block self la sa) h = Some (None, h') \<and> prefix hb h' \<and>
           read_loan_dicts h' la = Some (fst (alert_loop self w D1 D2)) \<and>
           read_swap_dicts h' sa = Some (snd (alert_loop self w D1 D2))"
proof -
  let ?f = "\<lambda>bs. map loan_entry (filter (\<lambda>l. py_ge (FlashLoan.amount l) (min_flash_loan_size self))
                                  (concat (map CollectedData.flash_loans bs)))"
  let ?g = "\<lambda>bs. map swap_entry (filter (\<lambda>s. py_ge (Swap.price_impact s) (min_price_impact self))
                                  (concat (map swaps bs)))"
  let ?I = "\<lambda>j h'. prefix hb h' \<and> read_loan_dicts h' la = Some (D1 @ ?f (take j w)) \<and>
                   read_swap_dicts h' sa = Some (D2 @ ?g (take j w))"
  have len: "length w = length rb" using rb(2) by (rule map_Some_length)
  have "\<exists>h'. for_in recent 0 (alert_block self la sa) h = Some (None, h') \<and> ?I (length rb) h'"
  proof (rule for_in_rule [where I = ?I])
    show "?I 0 h" using hb la sa by simp
    show "0 \<le> length rb" by simp
    show "get_list h' recent = Some rb" if "?I j h'" for j h'
      using that rb(1) by (blast intro: get_list_prefix)
    show "\<exists>h''. alert_block self la sa (rb ! j) h' = Some (None, h'') \<and> ?I (Suc j) h''"
      if j: "j < length rb" and I: "?I j h'" for j h'
    proof -
      have t: "take (Suc j) w = take j w @ [w ! j]"
        using j len by (simp add: take_Suc_conv_app_nth)
      from I have I1: "prefix hb h'" and I2: "read_loan_dicts h' la = Some (D1 @ ?f (take j w))"
        and I3: "read_swap_dicts h' sa = Some (D2 @ ?g (take j w))" by simp_all
      from alert_block_step [OF I1 hb(2,3,4) map_Some_nth [OF rb(2) j] I2 I3, of self]
      show ?thesis unfolding t by simp
    qed
  qed
  then show ?thesis using len by (simp add: alert_loop_eq)
qed

lemma last_two_map: "last_two (map f xs) = map f (last_two xs)"
  by (simp add: last_two_def drop_map)

lemma get_alert_details_h_correct:
  assumes "read_window h a = Some w"
  shows "\<exists>p h'. get_alert_details_h self a h = Some (p, h') \<and> prefix h h' \<and>
           read_alert h' p = Some (get_alert_details self w)"
proof -
  from assms obtain bs where bs: "get_list h a = Some bs" "map (read_block h) bs = map Some w"
    unfolding read_window_iff by blast
  have len: "length w = length bs" using bs(2) by (rule map_Some_length)
  let ?h1 = "h @ [PyList (last_two bs)]"
  let ?h2 = "?h1 @ [PyList []]"
  let ?h3 = "?h2 @ [PyList []]"
  have p1: "prefix h ?h1" by simp
  have rb: "get_list ?h1 (length h) = Some (last_two bs)" by (simp add: get_list_obj)
  have "map (read_block h) (last_two bs) = map Some (last_two w)"
    using bs(2) by (simp flip: last_two_map)
  then have rbv: "map (read_block ?h1) (last_two bs) = map Some (last_two w)"
    by (rule map_Some_stable) (rule read_block_prefix [OF p1])
  have p13: "prefix ?h1 ?h3" by simp
  have la: "read_loan_dicts ?h3 (length ?h1) = Some []"
    by (simp add: read_loan_dicts_iff get_list_obj get_obj_def nth_append)
  have sa: "read_swap_dicts ?h3 (length ?h2) = Some []"
    by (simp add: read_swap_dicts_iff get_list_obj get_obj_def nth_append)
  from alert_loop_h [OF p13 order_refl _ _ rb rbv la sa, of self]
  obtain h4 where
    l4: "for_in (length h) 0 (alert_block self (length ?h1) (length ?h2)) ?h3 = Some (None, h4)" and
    p4: "prefix ?h1 h4" and
    la4: "read_loan_dicts h4 (length ?h1) = Some (fst (alert_loop self (last_two w) [] []))" and
    sa4: "read_swap_dicts h4 (length ?h2) = Some (snd (alert_loop self (last_two w) [] []))"
    by auto
  have p04: "prefix h h4" using p1 p4 by (rule prefix_order.trans)
  have bs4: "get_list h4 a = Some bs" using p04 bs(1) by (rule get_list_prefix)
  let ?alert = "AlertDict ''flash_loan_sandwich'' ''HIGH'' (length ?h1) (length ?h2) (int (length bs))"
  let ?h5 = "h4 @ [?alert]"
  have p45: "prefix h4 ?h5" by simp
  have r: "get_alert_details_h self a h = Some (length h4, ?h5)"
    using bs(1) l4 bs4 by (simp add: get_alert_details_h_def alloc_def)
  have "read_alert ?h5 (length h4) = Some (get_alert_details self w)"
    using read_loan_dicts_prefix [OF p45 la4] read_swap_dicts_prefix [OF p45 sa4] len
    by (simp add: read_alert_def get_alert_details_def Let_def case_prod_beta)
  moreover have "prefix h ?h5" using p04 p45 by (rule prefix_order.trans)
  ultimately show ?thesis using r by blast
qed

lemma read_alert_prefix:
  assumes "prefix h h'" and "read_alert h a = Some al"
  shows "read_alert h' a = Some al"
proof -
  from assms(2) obtain kind sev fl sw n ls ss where
    o: "get_obj h a = Some (AlertDict kind sev fl sw n)" and
    ls: "read_loan_dicts h fl = Some ls" and ss: "read_swap_dicts h sw = Some ss" and
    al: "al = \<lparr>attack_type = kind, severity = sev, Alert.flash_loans = ls,
               high_impact_swaps = ss, blocks_analyzed = n\<rparr>"
    by (auto simp: read_alert_def split: option.splits obj.splits Option.bind_splits)
  show ?thesis
    using get_obj_prefix [OF assms(1) o] read_loan_dicts_prefix [OF assms(1) ls]
      read_swap_dicts_prefix [OF assms(1) ss] al
    by (simp add: read_alert_def)
qed

lemma read_window_demo_heap: "read_window demo_heap 10 = Some [data1, data2]"
  by (simp add: read_window_def read_block_def read_loans_def read_swaps_def get_list_def
      get_loan_def get_swap_def get_obj_def demo_heap_def data1_def data2_def)

lemma read_window_empty_heap: "read_window empty_heap 0 = Some []"
  by (simp add: read_window_def get_list_def get_obj_def empty_heap_def)

section \<open>The look-back\<close>

text \<open>
  C1, as the code has it. The detection pass reads the last \<open>min 2 len\<close> bundles of the window,
  whatever \<^verbatim>\<open>max_blocks_between\<close> is: the slice of line 96 is \<open>spec_recent 2\<close>, the
  result is the result on that slice under any value of \<^verbatim>\<open>max_blocks_between\<close>, and the
  result is true exactly when a qualifying loan and a qualifying swap of those two bundles
  are related. The look-back is \<^verbatim>\<open>max_blocks_between + 1\<close> only for the default 1.
\<close>

theorem should_respond_inspects_last_two:
  "recent_blocks_of w = spec_recent 2 w \<and>
   should_respond self w = should_respond (self\<lparr>max_blocks_between := m\<rparr>) (spec_recent 2 w) \<and>
   (should_respond self w \<longleftrightarrow>
      (\<exists>b1 \<in> set (spec_recent 2 w). \<exists>l \<in> set (CollectedData.flash_loans b1).
         py_ge (FlashLoan.amount l) (min_flash_loan_size self) \<and>
         (\<exists>b2 \<in> set (spec_recent 2 w). \<exists>s \<in> set (swaps b2).
            py_ge (Swap.price_impact s) (min_price_impact self) \<and>
            (FlashLoan.tx_hash l = Swap.tx_hash s \<or> FlashLoan.borrower l = Swap.trader s))))"
proof -
  have a: "recent_blocks_of w = spec_recent 2 w"
    by (simp add: recent_blocks_of_last_two last_two_spec_recent)
  have b: "recent_blocks_of (spec_recent 2 w) = spec_recent 2 w"
    by (simp add: recent_blocks_of_last_two last_two_idem flip: last_two_spec_recent)
  have c: "should_respond self w = should_respond (self\<lparr>max_blocks_between := m\<rparr>) (spec_recent 2 w)"
    unfolding should_respond_iff a b by simp
  show ?thesis
    using a c should_respond_iff [of self w] by simp
qed

text \<open>
  With a look-back of \<^verbatim>\<open>max_blocks_between + 1\<close> the statement fails for \<^verbatim>\<open>max_blocks_between = 2\<close>: the attack block of the demo
  as third-most-recent bundle is inside the specification's look-back of three bundles and
  outside the two bundles the code reads.
\<close>

theorem look_back_counterexample:
  "recent_blocks_of [data2, data1, data1]
     \<noteq> spec_recent (spec_look_back (init (default_config\<lparr>cfg_max_blocks_between := Some 2\<rparr>)))
          [data2, data1, data1] \<and>
   \<not> should_respond (init (default_config\<lparr>cfg_max_blocks_between := Some 2\<rparr>))
        [data2, data1, data1] \<and>
   spec_should_respond (init (default_config\<lparr>cfg_max_blocks_between := Some 2\<rparr>))
        [data2, data1, data1]"
proof -
  have "recent_blocks_of [data2, data1, data1] = [data1, data1]"
    by (simp add: recent_blocks_of_def last_two_def)
  moreover have "spec_recent (spec_look_back (init (default_config\<lparr>cfg_max_blocks_between := Some 2\<rparr>)))
          [data2, data1, data1] = [data2, data1, data1]"
    by (simp add: spec_recent_def spec_look_back_def init_def default_config_def)
  moreover have "\<not> should_respond (init (default_config\<lparr>cfg_max_blocks_between := Some 2\<rparr>))
        [data2, data1, data1]"
    by (simp add: should_respond_def recent_blocks_of_def last_two_def init_def default_config_def data1_def)
  moreover have "spec_should_respond (init (default_config\<lparr>cfg_max_blocks_between := Some 2\<rparr>))
        [data2, data1, data1]"
    by (simp add: spec_should_respond_def spec_recent_def spec_look_back_def init_def default_config_def data1_def data2_def)
  ultimately show ?thesis by simp
qed

text \<open>
  C4. On the empty window \<^verbatim>\<open>should_respond\<close> returns \<open>False\<close> under every configuration.
  It is a result and not an error: on a heap that holds the empty window the run returns
  \<open>False\<close> and leaves the heap as it was.
\<close>

theorem should_respond_empty_window:
  "should_respond self [] = False \<and>
   (read_window h a = Some [] \<longrightarrow> should_respond_h self a h = Some (False, h))"
proof -
  have "should_respond_h self a h = Some (False, h)" if "read_window h a = Some []"
  proof -
    from that have "get_list h a = Some []" unfolding read_window_iff by simp
    then show ?thesis by (simp add: should_respond_h_def)
  qed
  then show ?thesis by (simp add: should_respond_def)
qed

theorem should_respond_empty_window_witness:
  "should_respond_h (init default_config) 0 empty_heap = Some (False, empty_heap)"
  using should_respond_empty_window [of "init default_config" empty_heap 0] read_window_empty_heap
  by simp

section \<open>Thresholds and relations\<close>

text \<open>
  C3. Monotonicity in the thresholds: for two detectors with the same
  \<^verbatim>\<open>max_blocks_between\<close>, if \<^verbatim>\<open>should_respond\<close> is false under the lower thresholds, it
  is false under thresholds that are \<^verbatim>\<open>>=\<close> them, on the same window.
\<close>

theorem should_respond_threshold_monotone:
  assumes "max_blocks_between hi = max_blocks_between lo"
    and "py_ge (min_flash_loan_size hi) (min_flash_loan_size lo)"
    and "py_ge (min_price_impact hi) (min_price_impact lo)"
    and "\<not> should_respond lo w"
  shows "\<not> should_respond hi w"
proof
  assume "should_respond hi w"
  then obtain b1 l b2 s where
    h: "b1 \<in> set (recent_blocks_of w)" "l \<in> set (CollectedData.flash_loans b1)"
       "py_ge (FlashLoan.amount l) (min_flash_loan_size hi)"
       "b2 \<in> set (recent_blocks_of w)" "s \<in> set (swaps b2)"
       "py_ge (Swap.price_impact s) (min_price_impact hi)"
       "FlashLoan.tx_hash l = Swap.tx_hash s \<or> FlashLoan.borrower l = Swap.trader s"
    unfolding should_respond_iff by blast
  from h(3) assms(2) have "py_ge (FlashLoan.amount l) (min_flash_loan_size lo)"
    by (rule py_ge_trans)
  moreover from h(6) assms(3) have "py_ge (Swap.price_impact s) (min_price_impact lo)"
    by (rule py_ge_trans)
  ultimately have "should_respond lo w"
    unfolding should_respond_iff using h by blast
  with assms(4) show False by contradiction
qed

theorem should_respond_threshold_monotone_witness:
  "\<not> should_respond (init default_config) [mk_block [loan_a] [swap_c] 7] \<and>
   \<not> should_respond
        (init \<lparr>cfg_min_price_impact = Some (Fin 8.5), cfg_min_flash_loan_size = Some (Fin 200000),
               cfg_max_blocks_between = None\<rparr>)
        [mk_block [loan_a] [swap_c] 7]"
proof -
  have lo: "\<not> should_respond (init default_config) [mk_block [loan_a] [swap_c] 7]"
    by (simp add: should_respond_def recent_blocks_of_def init_def default_config_def mk_block_def
        loan_a_def swap_c_def)
  show ?thesis
    using lo should_respond_threshold_monotone
      [of "init \<lparr>cfg_min_price_impact = Some (Fin 8.5), cfg_min_flash_loan_size = Some (Fin 200000),
               cfg_max_blocks_between = None\<rparr>" "init default_config" "[mk_block [loan_a] [swap_c] 7]"]
    by (simp add: init_def default_config_def)
qed

text \<open>
  C5, as the code has it. Same-transaction sufficiency: if a loan and a swap in the two
  most recent bundles of the window (the last \<open>min 2 len\<close>, whatever
  \<^verbatim>\<open>max_blocks_between\<close> is) meet their thresholds and share the \<^verbatim>\<open>tx_hash\<close>,
  \<^verbatim>\<open>should_respond\<close> returns true; nothing is asked of borrower and trader.
\<close>

theorem same_tx_sufficient:
  assumes "b1 \<in> set (spec_recent 2 w)" and "loan \<in> set (CollectedData.flash_loans b1)"
    and "py_ge (FlashLoan.amount loan) (min_flash_loan_size self)"
    and "b2 \<in> set (spec_recent 2 w)" and "swap \<in> set (swaps b2)"
    and "py_ge (Swap.price_impact swap) (min_price_impact self)"
    and "FlashLoan.tx_hash loan = Swap.tx_hash swap"
  shows "should_respond self w"
proof -
  have r: "recent_blocks_of w = spec_recent 2 w"
    by (simp add: recent_blocks_of_last_two last_two_spec_recent)
  from assms(7) have "FlashLoan.tx_hash loan = Swap.tx_hash swap
      \<or> FlashLoan.borrower loan = Swap.trader swap" by (rule disjI1)
  with assms(1-6) show ?thesis
    unfolding r [symmetric] by (rule should_respond_pair)
qed

theorem same_tx_sufficient_witness:
  "FlashLoan.borrower loan_a \<noteq> Swap.trader swap_b \<and>
   should_respond (init default_config) [data1, mk_block [loan_a] [swap_b] 1001]"
  using same_tx_sufficient [of "mk_block [loan_a] [swap_b] 1001" "[data1, mk_block [loan_a] [swap_b] 1001]"
      loan_a "init default_config" "mk_block [loan_a] [swap_b] 1001" swap_b]
  by (simp add: spec_recent_def mk_block_def loan_a_def swap_b_def init_def default_config_def)

text \<open>
  With a look-back of \<^verbatim>\<open>max_blocks_between + 1\<close> bundles the statement fails for
  \<^verbatim>\<open>max_blocks_between = 2\<close>: a large loan and a high-impact swap of one transaction in
  the third-most-recent of three ascending blocks lie in that look-back, and
  \<^verbatim>\<open>should_respond\<close> reads the two later blocks only and returns false.
\<close>

theorem same_tx_counterexample:
  "mk_block [loan_a] [swap_b] 1000
     \<in> set (spec_recent (spec_look_back (init (default_config\<lparr>cfg_max_blocks_between := Some 2\<rparr>)))
              [mk_block [loan_a] [swap_b] 1000, mk_block [] [] 1001, mk_block [] [] 1002]) \<and>
   loan_a \<in> set (CollectedData.flash_loans (mk_block [loan_a] [swap_b] 1000)) \<and>
   swap_b \<in> set (swaps (mk_block [loan_a] [swap_b] 1000)) \<and>
   py_ge (FlashLoan.amount loan_a)
     (min_flash_loan_size (init (default_config\<lparr>cfg_max_blocks_between := Some 2\<rparr>))) \<and>
   py_ge (Swap.price_impact swap_b)
     (min_price_impact (init (default_config\<lparr>cfg_max_blocks_between := Some 2\<rparr>))) \<and>
   FlashLoan.tx_hash loan_a = Swap.tx_hash swap_b \<and>
   \<not> should_respond (init (default_config\<lparr>cfg_max_blocks_between := Some 2\<rparr>))
        [mk_block [loan_a] [swap_b] 1000, mk_block [] [] 1001, mk_block [] [] 1002]"
  by (simp add: spec_recent_def spec_look_back_def should_respond_def recent_blocks_of_def
      last_two_def init_def default_config_def mk_block_def loan_a_def swap_b_def)

text \<open>
  C6, as the code has it. Same-actor sufficiency: if a loan and a swap in the two most
  recent bundles of the window (the last \<open>min 2 len\<close>, whatever \<^verbatim>\<open>max_blocks_between\<close>
  is) meet their thresholds and the loan's borrower is the swap's trader,
  \<^verbatim>\<open>should_respond\<close> returns true; nothing is asked of the two \<^verbatim>\<open>tx_hash\<close>.
\<close>

theorem same_actor_sufficient:
  assumes "b1 \<in> set (spec_recent 2 w)" and "loan \<in> set (CollectedData.flash_loans b1)"
    and "py_ge (FlashLoan.amount loan) (min_flash_loan_size self)"
    and "b2 \<in> set (spec_recent 2 w)" and "swap \<in> set (swaps b2)"
    and "py_ge (Swap.price_impact swap) (min_price_impact self)"
    and "FlashLoan.borrower loan = Swap.trader swap"
  shows "should_respond self w"
proof -
  have r: "recent_blocks_of w = spec_recent 2 w"
    by (simp add: recent_blocks_of_last_two last_two_spec_recent)
  from assms(7) have "FlashLoan.tx_hash loan = Swap.tx_hash swap
      \<or> FlashLoan.borrower loan = Swap.trader swap" by (rule disjI2)
  with assms(1-6) show ?thesis
    unfolding r [symmetric] by (rule should_respond_pair)
qed

theorem same_actor_sufficient_witness:
  "FlashLoan.tx_hash loan_a \<noteq> Swap.tx_hash swap_a \<and>
   should_respond (init default_config) [mk_block [loan_a] [] 1000, mk_block [] [swap_a] 1001]"
  using same_actor_sufficient [of "mk_block [loan_a] [] 1000" "[mk_block [loan_a] [] 1000, mk_block [] [swap_a] 1001]"
      loan_a "init default_config" "mk_block [] [swap_a] 1001" swap_a]
  by (simp add: spec_recent_def mk_block_def loan_a_def swap_a_def init_def default_config_def)

text \<open>
  With a look-back of \<^verbatim>\<open>max_blocks_between + 1\<close> bundles the statement fails for
  \<^verbatim>\<open>max_blocks_between = 2\<close>: a large loan in the third-most-recent of three ascending
  blocks and a high-impact swap of its borrower in the most recent one lie in that
  look-back, and \<^verbatim>\<open>should_respond\<close> reads the two later blocks only, finds no loan and
  returns false.
\<close>

theorem same_actor_counterexample:
  "mk_block [loan_a] [] 1000
     \<in> set (spec_recent (spec_look_back (init (default_config\<lparr>cfg_max_blocks_between := Some 2\<rparr>)))
              [mk_block [loan_a] [] 1000, mk_block [] [] 1001, mk_block [] [swap_a] 1002]) \<and>
   mk_block [] [swap_a] 1002
     \<in> set (spec_recent (spec_look_back (init (default_config\<lparr>cfg_max_blocks_between := Some 2\<rparr>)))
              [mk_block [loan_a] [] 1000, mk_block [] [] 1001, mk_block [] [swap_a] 1002]) \<and>
   loan_a \<in> set (CollectedData.flash_loans (mk_block [loan_a] [] 1000)) \<and>
   swap_a \<in> set (swaps (mk_block [] [swap_a] 1002)) \<and>
   py_ge (FlashLoan.amount loan_a)
     (min_flash_loan_size (init (default_config\<lparr>cfg_max_blocks_between := Some 2\<rparr>))) \<and>
   py_ge (Swap.price_impact swap_a)
     (min_price_impact (init (default_config\<lparr>cfg_max_blocks_between := Some 2\<rparr>))) \<and>
   FlashLoan.borrower loan_a = Swap.trader swap_a \<and>
   FlashLoan.tx_hash loan_a \<noteq> Swap.tx_hash swap_a \<and>
   \<not> should_respond (init (default_config\<lparr>cfg_max_blocks_between := Some 2\<rparr>))
        [mk_block [loan_a] [] 1000, mk_block [] [] 1001, mk_block [] [swap_a] 1002]"
  by (simp add: spec_recent_def spec_look_back_def should_respond_def recent_blocks_of_def
      last_two_def init_def default_config_def mk_block_def loan_a_def swap_a_def)

section \<open>The alert\<close>

text \<open>
  C2, as the code has it. For every window the alert has severity \<^verbatim>\<open>'HIGH'\<close>; its two lists
  are those of the slice \<^verbatim>\<open>historical_data[-2:]\<close>, the last \<open>min 2 len\<close> bundles, whatever
  \<^verbatim>\<open>max_blocks_between\<close> is; and for a window of at most two bundles \<^verbatim>\<open>blocks_analyzed\<close>
  is the number of those bundles.
\<close>

theorem get_alert_details_severity_and_count:
  "Alert.severity (get_alert_details self w) = ''HIGH'' \<and>
   Alert.flash_loans (get_alert_details self w) =
     Alert.flash_loans (get_alert_details (self\<lparr>max_blocks_between := m\<rparr>) (last_two w)) \<and>
   Alert.high_impact_swaps (get_alert_details self w) =
     Alert.high_impact_swaps (get_alert_details (self\<lparr>max_blocks_between := m\<rparr>) (last_two w)) \<and>
   length (last_two w) = min 2 (length w) \<and>
   (length w \<le> 2 \<longrightarrow>
      Alert.blocks_analyzed (get_alert_details self w) = int (length (last_two w)))"
proof -
  have "alert_loop (self\<lparr>max_blocks_between := m\<rparr>) bs [] [] = alert_loop self bs [] []" for bs
    by (simp add: alert_loop_eq)
  then show ?thesis
    by (simp add: get_alert_details_def Let_def last_two_idem case_prod_beta)
       (simp add: last_two_def)
qed

theorem get_alert_details_severity_and_count_witness:
  "length [data1, data2] \<le> 2 \<and>
   Alert.severity (get_alert_details (init default_config) [data1, data2]) = ''HIGH'' \<and>
   Alert.blocks_analyzed (get_alert_details (init default_config) [data1, data2]) = 2"
  using get_alert_details_severity_and_count [of "init default_config" "[data1, data2]"]
  by (simp add: last_two_def)

text \<open>
  With a count of \<^verbatim>\<open>len(window.recent(max_blocks_between + 1))\<close> the statement fails for
  \<^verbatim>\<open>max_blocks_between = 0\<close> on a window of two bundles: both are inspected and counted,
  not one.
\<close>

theorem blocks_analyzed_counterexample:
  "Alert.blocks_analyzed
     (get_alert_details (init (default_config\<lparr>cfg_max_blocks_between := Some 0\<rparr>)) [data1, data2])
   \<noteq> int (length (spec_recent
                    (spec_look_back (init (default_config\<lparr>cfg_max_blocks_between := Some 0\<rparr>)))
                    [data1, data2]))"
  by (simp add: get_alert_details_def Let_def spec_recent_def spec_look_back_def init_def
      default_config_def split: prod.splits)

text \<open>
  On a longer window \<^verbatim>\<open>blocks_analyzed\<close> is \<^verbatim>\<open>len(historical_data)\<close>, not the length of
  the slice that was read.
\<close>

lemma blocks_analyzed_long_window:
  "Alert.blocks_analyzed (get_alert_details (init default_config) [data1, data1, data2]) = 3 \<and>
   length (last_two [data1, data1, data2]) = 2"
  by (simp add: get_alert_details_def Let_def last_two_def split: prod.splits)

text \<open>
  C7. Scenario B: when the bundles read contain one loan of amount 500000 and one swap of
  price impact 8.5, both with \<^verbatim>\<open>tx_hash\<close> \<^verbatim>\<open>"0xTx3"\<close>, and every other loan and swap in
  them fails its default threshold, then under the default configuration
  \<^verbatim>\<open>should_respond\<close> is true and the alert lists exactly that loan and that swap, both
  with \<^verbatim>\<open>tx\<close> \<^verbatim>\<open>"0xTx3"\<close>.
\<close>

theorem scenario_b:
  assumes loans: "concat (map CollectedData.flash_loans (recent_blocks_of w)) = ls1 @ [loan] @ ls2"
    and others_l: "\<forall>l \<in> set (ls1 @ ls2). \<not> py_ge (FlashLoan.amount l) (Fin 100000)"
    and loan: "FlashLoan.amount loan = Fin 500000" "FlashLoan.tx_hash loan = ''0xTx3''"
    and swaps: "concat (map CollectedData.swaps (recent_blocks_of w)) = ss1 @ [swap] @ ss2"
    and others_s: "\<forall>s \<in> set (ss1 @ ss2). \<not> py_ge (Swap.price_impact s) (Fin 5.0)"
    and swap: "Swap.price_impact swap = Fin 8.5" "Swap.tx_hash swap = ''0xTx3''"
  shows "should_respond (init default_config) w \<and>
         Alert.flash_loans (get_alert_details (init default_config) w) =
           [\<lparr>borrower = FlashLoan.borrower loan, amount = Fin 500000, tx = ''0xTx3''\<rparr>] \<and>
         Alert.high_impact_swaps (get_alert_details (init default_config) w) =
           [\<lparr>trader = Swap.trader swap, price_impact = Fin 8.5, tx = ''0xTx3''\<rparr>]"
proof -
  let ?self = "init default_config"
  have thr: "min_flash_loan_size ?self = Fin 100000" "min_price_impact ?self = Fin 5.0"
    by (simp_all add: init_def default_config_def)
  have "loan \<in> set (concat (map CollectedData.flash_loans (recent_blocks_of w)))"
    unfolding loans by simp
  then obtain b1 where b1: "b1 \<in> set (recent_blocks_of w)" "loan \<in> set (CollectedData.flash_loans b1)"
    by auto
  have "swap \<in> set (concat (map CollectedData.swaps (recent_blocks_of w)))"
    unfolding swaps by simp
  then obtain b2 where b2: "b2 \<in> set (recent_blocks_of w)" "swap \<in> set (CollectedData.swaps b2)"
    by auto
  have ql: "py_ge (FlashLoan.amount loan) (min_flash_loan_size ?self)"
    unfolding thr by (simp add: loan)
  have qs: "py_ge (Swap.price_impact swap) (min_price_impact ?self)"
    unfolding thr by (simp add: swap)
  have same: "FlashLoan.tx_hash loan = Swap.tx_hash swap" by (simp add: loan swap)
  have r: "should_respond ?self w"
    by (rule should_respond_pair [OF b1 ql b2 qs disjI1 [OF same]])
  have fl: "filter (\<lambda>l. py_ge (FlashLoan.amount l) (min_flash_loan_size ?self))
              (concat (map CollectedData.flash_loans (last_two w))) = [loan]"
    unfolding recent_blocks_of_last_two [symmetric] loans
    using others_l ql unfolding thr by (rule filter_single_out)
  have fs: "filter (\<lambda>s. py_ge (Swap.price_impact s) (min_price_impact ?self))
              (concat (map CollectedData.swaps (last_two w))) = [swap]"
    unfolding recent_blocks_of_last_two [symmetric] swaps
    using others_s qs unfolding thr by (rule filter_single_out)
  have a1: "Alert.flash_loans (get_alert_details ?self w) = [loan_entry loan]"
    unfolding get_alert_details_def alert_loop_eq Let_def fl by simp
  have a2: "Alert.high_impact_swaps (get_alert_details ?self w) = [swap_entry swap]"
    unfolding get_alert_details_def alert_loop_eq Let_def fs by simp
  show ?thesis
    using r a1 a2 by (simp add: loan_entry_def swap_entry_def loan swap)
qed

theorem scenario_b_witness:
  "should_respond (init default_config) [data1, data2] \<and>
   Alert.flash_loans (get_alert_details (init default_config) [data1, data2]) =
     [\<lparr>borrower = ''0xAttacker'', amount = Fin 500000, tx = ''0xTx3''\<rparr>] \<and>
   Alert.high_impact_swaps (get_alert_details (init default_config) [data1, data2]) =
     [\<lparr>trader = ''0xAttacker'', price_impact = Fin 8.5, tx = ''0xTx3''\<rparr>]"
  using scenario_b [of "[data1, data2]" "CollectedData.flash_loans data1"
      "hd (CollectedData.flash_loans data2)" "[]" "swaps data1" "hd (swaps data2)" "[]"]
  by (simp add: recent_blocks_of_def last_two_def data1_def data2_def)

text \<open>
  C10. \<^verbatim>\<open>get_alert_details\<close> is total: on every window, whatever \<^verbatim>\<open>should_respond\<close>
  says of it, the alert has \<^verbatim>\<open>attack_type\<close> \<^verbatim>\<open>'flash_loan_sandwich'\<close> and severity
  \<^verbatim>\<open>'HIGH'\<close>; on the empty window the two lists are empty and \<^verbatim>\<open>blocks_analyzed\<close> is 0;
  and on every heap that holds a window the run returns an alert, with that content.
\<close>

theorem get_alert_details_total:
  "get_alert_details self [] =
     \<lparr>attack_type = ''flash_loan_sandwich'', severity = ''HIGH'', flash_loans = [],
      high_impact_swaps = [], blocks_analyzed = 0\<rparr> \<and>
   Alert.attack_type (get_alert_details self w) = ''flash_loan_sandwich'' \<and>
   Alert.severity (get_alert_details self w) = ''HIGH'' \<and>
   (read_window h a = Some w \<longrightarrow>
      (\<exists>p h'. get_alert_details_h self a h = Some (p, h') \<and>
               read_alert h' p = Some (get_alert_details self w)))"
proof -
  have "\<exists>p h'. get_alert_details_h self a h = Some (p, h') \<and>
               read_alert h' p = Some (get_alert_details self w)"
    if "read_window h a = Some w"
    using get_alert_details_h_correct [OF that, of self] by blast
  then show ?thesis
    by (simp add: get_alert_details_def last_two_def Let_def split: prod.splits)
qed

theorem get_alert_details_total_witness:
  "\<exists>p h'. get_alert_details_h (init default_config) 0 empty_heap = Some (p, h') \<and>
     read_alert h' p =
       Some \<lparr>attack_type = ''flash_loan_sandwich'', severity = ''HIGH'', flash_loans = [],
             high_impact_swaps = [], blocks_analyzed = 0\<rparr>"
  using get_alert_details_total [of "init default_config" "[]" empty_heap 0] read_window_empty_heap
  by metis

section \<open>The simple variant\<close>

text \<open>
  C8, as the code has it. \<^verbatim>\<open>SimpleFlashSandwichTrap.should_respond\<close> makes the two threshold
  tests and no relational check: on the loan-amount/price-impact representation of a
  window it is true exactly when some loan and some swap of the last two bundles meet
  the default thresholds. So it is true whenever \<^verbatim>\<open>FlashSandwichTrap.should_respond\<close>
  under the default configuration is; the converse fails.
\<close>

theorem simple_should_respond_thresholds_only:
  "(simple_should_respond simple_init (map simple_view w) \<longleftrightarrow>
      (\<exists>b1 \<in> set (last_two w). \<exists>l \<in> set (CollectedData.flash_loans b1).
         py_ge (FlashLoan.amount l) (Fin 100000)) \<and>
      (\<exists>b2 \<in> set (last_two w). \<exists>s \<in> set (swaps b2).
         py_ge (Swap.price_impact s) (Fin 5.0))) \<and>
   (should_respond (init default_config) w \<longrightarrow>
      simple_should_respond simple_init (map simple_view w))"
proof -
  have rb: "recent_blocks_of (map simple_view w) = map simple_view (last_two w)"
    by (simp add: recent_blocks_of_last_two last_two_def drop_map)
  have a: "simple_should_respond simple_init (map simple_view w) \<longleftrightarrow>
      (\<exists>b1 \<in> set (last_two w). \<exists>l \<in> set (CollectedData.flash_loans b1).
         py_ge (FlashLoan.amount l) (Fin 100000)) \<and>
      (\<exists>b2 \<in> set (last_two w). \<exists>s \<in> set (swaps b2).
         py_ge (Swap.price_impact s) (Fin 5.0))"
  proof (cases "w = []")
    case True
    then show ?thesis by (simp add: simple_should_respond_def last_two_def)
  next
    case False
    then have "\<not> length (map simple_view w) < 1" by (cases w) simp_all
    then show ?thesis
      unfolding simple_should_respond_def Let_def rb
      by (simp add: list_ex_iff simple_view_def simple_init_def)
  qed
  have thr: "min_flash_loan_size (init default_config) = Fin 100000"
    "min_price_impact (init default_config) = Fin 5.0"
    by (simp_all add: init_def default_config_def)
  have b: "should_respond (init default_config) w \<longrightarrow>
      simple_should_respond simple_init (map simple_view w)"
    unfolding a should_respond_iff recent_blocks_of_last_two thr by blast
  show ?thesis using a b by blast
qed

theorem simple_should_respond_thresholds_only_witness:
  "should_respond (init default_config) [data1, data2] \<and>
   simple_should_respond simple_init (map simple_view [data1, data2])"
proof -
  have r: "should_respond (init default_config) [data1, data2]"
    by (simp add: should_respond_def recent_blocks_of_def last_two_def init_def default_config_def
        data1_def data2_def)
  show ?thesis
    using r simple_should_respond_thresholds_only [of "[data1, data2]"] by blast
qed

text \<open>
  The equivalence of the two variants fails on one block with a large loan and a high-impact swap of
  another trader in another transaction: the simple variant responds, the full one does
  not.
\<close>

theorem simple_full_counterexample:
  "simple_should_respond simple_init (map simple_view [mk_block [loan_a] [swap_c] 7]) \<and>
   \<not> should_respond (init default_config) [mk_block [loan_a] [swap_c] 7]"
  by (simp add: simple_should_respond_def should_respond_def recent_blocks_of_def simple_view_def
      simple_init_def init_def default_config_def mk_block_def loan_a_def swap_c_def)

section \<open>Purity\<close>

text \<open>
  C9. Purity and idempotence. On a heap that holds a window, \<^verbatim>\<open>should_respond\<close> followed
  by \<^verbatim>\<open>get_alert_details\<close>, run twice, returns all four times; each heap is the one
  before it followed by newly allocated cells, so the window's list, every bundle, loan
  and swap, and the first alert are cell for cell what they were; the two booleans are
  equal and the two alerts have the same content, those of the functions on the window.
\<close>

theorem respond_then_alert_twice:
  assumes "read_window h a = Some w"
  shows "\<exists>h1 p h2 h3 q h4.
           should_respond_h self a h = Some (should_respond self w, h1) \<and> prefix h h1 \<and>
           get_alert_details_h self a h1 = Some (p, h2) \<and> prefix h1 h2 \<and>
           read_alert h2 p = Some (get_alert_details self w) \<and>
           read_window h2 a = Some w \<and>
           should_respond_h self a h2 = Some (should_respond self w, h3) \<and> prefix h2 h3 \<and>
           get_alert_details_h self a h3 = Some (q, h4) \<and> prefix h3 h4 \<and>
           read_alert h4 q = Some (get_alert_details self w) \<and>
           read_alert h4 p = Some (get_alert_details self w) \<and>
           read_window h4 a = Some w"
proof -
  from should_respond_h_correct [OF assms, of self] obtain h1 where
    s1: "should_respond_h self a h = Some (should_respond self w, h1)" and p1: "prefix h h1"
    by blast
  have w1: "read_window h1 a = Some w" using p1 assms by (rule read_window_prefix)
  from get_alert_details_h_correct [OF w1, of self] obtain p h2 where
    g2: "get_alert_details_h self a h1 = Some (p, h2)" and p2: "prefix h1 h2" and
    a2: "read_alert h2 p = Some (get_alert_details self w)"
    by blast
  have w2: "read_window h2 a = Some w" using p2 w1 by (rule read_window_prefix)
  from should_respond_h_correct [OF w2, of self] obtain h3 where
    s3: "should_respond_h self a h2 = Some (should_respond self w, h3)" and p3: "prefix h2 h3"
    by blast
  have w3: "read_window h3 a = Some w" using p3 w2 by (rule read_window_prefix)
  from get_alert_details_h_correct [OF w3, of self] obtain q h4 where
    g4: "get_alert_details_h self a h3 = Some (q, h4)" and p4: "prefix h3 h4" and
    a4: "read_alert h4 q = Some (get_alert_details self w)"
    by blast
  have w4: "read_window h4 a = Some w" using p4 w3 by (rule read_window_prefix)
  have "prefix h2 h4" using p3 p4 by (rule prefix_order.trans)
  then have a4': "read_alert h4 p = Some (get_alert_details self w)"
    using a2 by (rule read_alert_prefix)
  show ?thesis
    using s1 p1 g2 p2 a2 w2 s3 p3 g4 p4 a4 a4' w4 by blast
qed

theorem respond_then_alert_twice_witness:
  "\<exists>h1 p h2 h3 q h4.
     should_respond_h (init default_config) 10 demo_heap = Some (True, h1) \<and>
     prefix demo_heap h1 \<and>
     get_alert_details_h (init default_config) 10 h1 = Some (p, h2) \<and> prefix h1 h2 \<and>
     read_alert h2 p = Some (get_alert_details (init default_config) [data1, data2]) \<and>
     read_window h2 10 = Some [data1, data2] \<and>
     should_respond_h (init default_config) 10 h2 = Some (True, h3) \<and> prefix h2 h3 \<and>
     get_alert_details_h (init default_config) 10 h3 = Some (q, h4) \<and> prefix h3 h4 \<and>
     read_alert h4 q = Some (get_alert_details (init default_config) [data1, data2]) \<and>
     read_alert h4 p = Some (get_alert_details (init default_config) [data1, data2]) \<and>
     read_window h4 10 = Some [data1, data2]"
proof -
  have r: "should_respond (init default_config) [data1, data2] = True"
    by (simp add: should_respond_def recent_blocks_of_def last_two_def init_def default_config_def
        data1_def data2_def)
  show ?thesis
    using respond_then_alert_twice [OF read_window_demo_heap, of "init default_config"]
    unfolding r .
qed

end
